theory Spec2Isabelle
  imports Main "HOL-Library.Sublist" "HOL-Library.Multiset"
begin

section \<open>The .NET app host importer (cli/azd/pkg/project/dotnet\_importer.go)\<close>

subsection \<open>Errors, outcomes, persisted configuration values\<close>

text \<open>
  A Go \<open>error\<close> is an opaque message; \<open>fmt.Errorf("prefix: %w", err)\<close> wraps one.
  A call of the importer returns a value, returns an error, or unwinds with a panic.
\<close>

datatype error = Error string | Wrap string error

datatype 'a outcome = Return 'a | ReturnErr error | Panicked

text \<open>
  \<open>env.Config.Get\<close> yields an \<open>interface{}\<close>. A configuration read back from its
  JSON document holds null, booleans, numbers, strings, \<open>[]interface{}\<close> and objects;
  \<open>CfgStrings\<close> is the Go value of type \<open>[]string\<close> that \<open>readManifest\<close> hands to
  \<open>env.Config.Set\<close>. The type assertion \<open>cfgValue.([]interface{})\<close> holds of
  \<open>CfgArray\<close> alone, \<open>name.(string)\<close> of \<open>CfgString\<close> alone.
\<close>

datatype cfg_value =
    CfgNull
  | CfgBool bool
  | CfgNumber int
  | CfgString string
  | CfgArray "cfg_value list"
  | CfgObject "(string \<times> cfg_value) list"
  | CfgStrings "string list"

type_synonym config = "string \<rightharpoonup> cfg_value"

subsection \<open>The manifest\<close>

text \<open>
  Modelled from the spec: the declarations of \<open>apphost.Manifest\<close>, its resources and
  their bindings are not among the sources. Section 3 of the specification gives a
  binding a transport kind, a target port, a transport mode, the \<open>external\<close> flag and an
  insecure-allowed flag, and a resource a kind, its bindings, environment entries, an
  optional image and an optional build context; \<open>readManifest\<close> reads
  \<open>manifest.Resources[name].Bindings\<close> and writes \<open>binding.External\<close>.
\<close>

record Binding =
  transportKind :: string
  targetPort :: nat
  transportMode :: string
  External :: bool
  insecureAllowed :: bool

record Resource =
  Kind :: string
  Bindings :: "string \<rightharpoonup> Binding"
  Env :: "string \<rightharpoonup> string"
  Image :: "string option"
  BuildContext :: "string option"

record Manifest =
  Resources :: "string \<rightharpoonup> Resource"

record ServiceConfig =
  Name :: string
  Path :: string

record ProjectConfig =
  ProjectPath :: string

subsection \<open>The generated file tree\<close>

text \<open>
  \<open>SynthAllInfrastructure\<close> builds its result in an in-memory file system (the memfs
  library). A slash-separated path is the list of its elements, \<open>"."\<close> the empty list;
  the tree is the map from the paths it holds to their nodes, the root left implicit.
\<close>

type_synonym fpath = "string list"
type_synonym bytes = string
type_synonym FileMode = nat

datatype node = DirNode FileMode | FileNode bytes FileMode

type_synonym memfs = "fpath \<rightharpoonup> node"

text \<open>
  What \<open>fs.WalkDir(infraFS, ".", fn)\<close> hands to its callback, in the lexical order of the
  walk: an entry it failed to visit, a directory, or a file together with what
  \<open>d.Type().Perm()\<close> is for its entry \<open>d\<close> and what \<open>fs.ReadFile(infraFS, path)\<close> gives for
  it. The file system is the one that \<open>apphost.BicepTemplate\<close> returns, so both are its
  answers: an \<open>fs.DirEntry\<close> whose \<open>Type\<close> holds the type bits alone answers 0, one that
  hands out its whole mode answers the permission bits of the file.
\<close>

datatype walk_entry =
    WalkFailed fpath error
  | WalkedDir fpath
  | WalkedFile fpath FileMode "error + bytes"

subsection \<open>Collaborators and the importer's state\<close>

text \<open>
  What the code outside this file answers during one call of the importer. A call asks
  each of them at most once for the same arguments, so one record per call leaves them
  free to answer differently from call to call.

  \<open>nilResourcePanics\<close> is not a collaborator but the one fact about the missing
  declaration of \<open>Manifest.Resources\<close> that the code depends on: for a name that is not
  a key, \<open>manifest.Resources[name].Bindings\<close> dereferences a nil pointer when the map holds
  \<open>*Resource\<close> (the call panics), and ranges over no binding when it holds \<open>Resource\<close>.

  \<open>BicepTemplate\<close> answers with the walk of the tree it rendered. \<open>ProjectPaths\<close> answers
  with the entries of the Go map \<open>apphost.ProjectPaths(manifest)\<close> in the order in which
  this call's \<open>range\<close> statement visits them; Go leaves that order unspecified, so it may
  differ from call to call. \<open>filepath_Rel\<close> is the standard library's \<open>filepath.Rel\<close>,
  its cleaned result split into elements. The two permission constants belong to the
  osutil package, which is not among the sources.
\<close>

record collaborators =
  ManifestFromAppHost :: "string \<Rightarrow> error + Manifest"
  lazyEnv_GetValue :: "error option"
  SelectPublicServices :: "Manifest \<Rightarrow> error + string list"
  Config_Set :: "string \<Rightarrow> string list \<Rightarrow> error option"
  lazyEnvManager_GetValue :: "error option"
  envManager_Save :: "config \<Rightarrow> error option"
  GetMsBuildProperty :: "string \<Rightarrow> string \<Rightarrow> error + string"
  nilResourcePanics :: bool
  BicepTemplate :: "Manifest \<Rightarrow> error + walk_entry list"
  ProjectPaths :: "Manifest \<Rightarrow> (string \<times> string) list"
  ContainerAppManifestTemplateForProject :: "Manifest \<Rightarrow> string \<Rightarrow> error + bytes"
  filepath_Rel :: "string \<Rightarrow> string \<Rightarrow> error + fpath"
  PermissionDirectoryOwnerOnly :: FileMode
  PermissionFileOwnerOnly :: FileMode

text \<open>What the calls leave behind for an observer, in order.\<close>

datatype event =
    Discover string
  | MsBuildProbe string string
  | EnvGetValue
  | SelectPrompt
  | ConfigSet string "string list"
  | EnvManagerGetValue
  | EnvSave
  | LogNotArray string
  | LogNotString string nat
  | LogEnvError error

record hostCheckResult =
  isHost :: bool
  hostErr :: "error option"

text \<open>
  The two maps of the \<open>DotNetImporter\<close> struct, together with what its calls change
  outside it: the \<open>Config\<close> of the environment that \<open>lazyEnv\<close> yields, the configuration
  that \<open>envManager.Save\<close> last made durable, and the journal of external calls and log
  lines. The mutexes serialise the calls; a call is one step on this state.
\<close>

record importer =
  cache :: "string \<rightharpoonup> Manifest"
  hostCheck :: "string \<rightharpoonup> hostCheckResult"
  envConfig :: config
  savedConfig :: "config option"
  journal :: "event list"

definition NewDotNetImporter :: "config \<Rightarrow> importer" where
  "NewDotNetImporter cfg =
     \<lparr>cache = Map.empty, hostCheck = Map.empty, envConfig = cfg, savedConfig = None,
      journal = []\<rparr>"

definition emit :: "event \<Rightarrow> importer \<Rightarrow> importer" where
  "emit e s = s\<lparr>journal := journal s @ [e]\<rparr>"

subsection \<open>CanImport\<close>

text \<open>
  \<open>strings.TrimSpace\<close> removes leading and trailing white space as Unicode defines it,
  on the UTF-8 decoding of the string: six ASCII characters, U+0085 and U+00A0 (two
  bytes each), and U+1680, U+2000 to U+200A, U+2028, U+2029, U+202F, U+205F and U+3000
  (three bytes each). A byte that starts no valid encoding decodes to U+FFFD, which is
  not white space.
\<close>

definition asciiSpace :: "char \<Rightarrow> bool" where
  "asciiSpace ch = (ch \<in> set [CHR 0x09, CHR 0x0A, CHR 0x0B, CHR 0x0C, CHR 0x0D, CHR 0x20])"

definition space2 :: "string list" where
  "space2 = [[CHR 0xC2, CHR 0x85], [CHR 0xC2, CHR 0xA0]]"

definition space3 :: "string list" where
  "space3 =
     [[CHR 0xE1, CHR 0x9A, CHR 0x80],
      [CHR 0xE2, CHR 0x80, CHR 0x80], [CHR 0xE2, CHR 0x80, CHR 0x81],
      [CHR 0xE2, CHR 0x80, CHR 0x82], [CHR 0xE2, CHR 0x80, CHR 0x83],
      [CHR 0xE2, CHR 0x80, CHR 0x84], [CHR 0xE2, CHR 0x80, CHR 0x85],
      [CHR 0xE2, CHR 0x80, CHR 0x86], [CHR 0xE2, CHR 0x80, CHR 0x87],
      [CHR 0xE2, CHR 0x80, CHR 0x88], [CHR 0xE2, CHR 0x80, CHR 0x89],
      [CHR 0xE2, CHR 0x80, CHR 0x8A], [CHR 0xE2, CHR 0x80, CHR 0xA8],
      [CHR 0xE2, CHR 0x80, CHR 0xA9], [CHR 0xE2, CHR 0x80, CHR 0xAF],
      [CHR 0xE2, CHR 0x81, CHR 0x9F], [CHR 0xE3, CHR 0x80, CHR 0x80]]"

text \<open>The width in bytes of the white-space character a string starts with, 0 if none.\<close>

definition leadingSpace :: "string \<Rightarrow> nat" where
  "leadingSpace s =
     (case s of
        [] \<Rightarrow> 0
      | a # _ \<Rightarrow>
          if asciiSpace a then 1
          else if 2 \<le> length s \<and> take 2 s \<in> set space2 then 2
          else if 3 \<le> length s \<and> take 3 s \<in> set space3 then 3
          else 0)"

text \<open>The same for the character a string ends with.\<close>

definition trailingSpace :: "string \<Rightarrow> nat" where
  "trailingSpace s =
     (if s = [] then 0
      else if asciiSpace (last s) then 1
      else if 2 \<le> length s \<and> drop (length s - 2) s \<in> set space2 then 2
      else if 3 \<le> length s \<and> drop (length s - 3) s \<in> set space3 then 3
      else 0)"

lemma leadingSpace_le: "leadingSpace s \<le> length s"
  by (cases s) (simp_all add: leadingSpace_def)

lemma trailingSpace_le: "trailingSpace s \<le> length s"
  by (cases s) (simp_all add: trailingSpace_def)

function trimLeft :: "string \<Rightarrow> string" where
  "trimLeft s = (if leadingSpace s = 0 then s else trimLeft (drop (leadingSpace s) s))"
  by pat_completeness auto
termination
proof (relation "measure length")
  show "wf (measure length)" by simp
next
  fix s :: string
  assume "leadingSpace s \<noteq> 0"
  moreover have "leadingSpace s \<le> length s" by (rule leadingSpace_le)
  ultimately show "(drop (leadingSpace s) s, s) \<in> measure length" by simp
qed

function trimRight :: "string \<Rightarrow> string" where
  "trimRight s =
     (if trailingSpace s = 0 then s else trimRight (take (length s - trailingSpace s) s))"
  by pat_completeness auto
termination
proof (relation "measure length")
  show "wf (measure length)" by simp
next
  fix s :: string
  assume "trailingSpace s \<noteq> 0"
  moreover have "trailingSpace s \<le> length s" by (rule trailingSpace_le)
  ultimately show "(take (length s - trailingSpace s) s, s) \<in> measure length" by simp
qed

declare trimLeft.simps [simp del] trimRight.simps [simp del]

definition TrimSpace :: "string \<Rightarrow> string" where
  "TrimSpace s = trimRight (trimLeft s)"

definition CanImport ::
  "collaborators \<Rightarrow> importer \<Rightarrow> string \<Rightarrow> (bool \<times> error option) \<times> importer" where
  "CanImport c s projectPath =
     (case hostCheck s projectPath of
        Some v \<Rightarrow> ((isHost v, hostErr v), s)
      | None \<Rightarrow>
          (let s1 = emit (MsBuildProbe projectPath ''IsAspireHost'') s in
           case GetMsBuildProperty c projectPath ''IsAspireHost'' of
             Inl err \<Rightarrow>
               ((False, Some err),
                s1\<lparr>hostCheck := (hostCheck s1)(projectPath \<mapsto> \<lparr>isHost = False, hostErr = Some err\<rparr>)\<rparr>)
           | Inr v \<Rightarrow>
               ((TrimSpace v = ''true'', None),
                s1\<lparr>hostCheck :=
                     (hostCheck s1)(projectPath \<mapsto> \<lparr>isHost = (TrimSpace v = ''true''), hostErr = None\<rparr>)\<rparr>)))"

subsection \<open>readManifest\<close>

definition exposedServicesKey :: "string \<Rightarrow> string" where
  "exposedServicesKey svcName = ''services.'' @ svcName @ ''.config.exposedServices''"

text \<open>\<open>for _, binding := range resource.Bindings { binding.External = true }\<close>\<close>

definition setExternal :: "Resource \<Rightarrow> Resource" where
  "setExternal r =
     r\<lparr>Bindings := (\<lambda>k. map_option (\<lambda>b. b\<lparr>External := True\<rparr>) (Bindings r k))\<rparr>"

text \<open>The same loop from the manifest: \<open>None\<close> is the nil dereference.\<close>

definition exposeBindings :: "bool \<Rightarrow> Manifest \<Rightarrow> string \<Rightarrow> Manifest option" where
  "exposeBindings np m n =
     (case Resources m n of
        None \<Rightarrow> (if np then None else Some m)
      | Some r \<Rightarrow> Some (m\<lparr>Resources := (Resources m)(n \<mapsto> setExternal r)\<rparr>))"

text \<open>
  The loop over the persisted array (lines 276 to 285): an entry that is no string is
  logged with its index, a string has the bindings of its resource marked.
\<close>

fun applyExposedServices ::
  "bool \<Rightarrow> string \<Rightarrow> nat \<Rightarrow> cfg_value list \<Rightarrow> Manifest \<Rightarrow> importer \<Rightarrow> Manifest option \<times> importer"
  where
  "applyExposedServices np svc idx [] m s = (Some m, s)"
| "applyExposedServices np svc idx (CfgString strName # rest) m s =
     (case exposeBindings np m strName of
        None \<Rightarrow> (None, s)
      | Some m' \<Rightarrow> applyExposedServices np svc (Suc idx) rest m' s)"
| "applyExposedServices np svc idx (_ # rest) m s =
     applyExposedServices np svc (Suc idx) rest m (emit (LogNotString svc idx) s)"

text \<open>The loop over the selected names (lines 294 to 298).\<close>

fun exposeSelected :: "bool \<Rightarrow> string list \<Rightarrow> Manifest \<Rightarrow> Manifest option" where
  "exposeSelected np [] m = Some m"
| "exposeSelected np (n # rest) m =
     (case exposeBindings np m n of
        None \<Rightarrow> None
      | Some m' \<Rightarrow> exposeSelected np rest m')"

text \<open>Lines 319 and 320.\<close>

definition storeManifest ::
  "string \<Rightarrow> Manifest \<Rightarrow> importer \<Rightarrow> Manifest outcome \<times> importer" where
  "storeManifest p m s = (Return m, s\<lparr>cache := (cache s)(p \<mapsto> m)\<rparr>)"

text \<open>Lines 273 to 286: the key is present.\<close>

definition applyPersisted ::
  "collaborators \<Rightarrow> ServiceConfig \<Rightarrow> cfg_value \<Rightarrow> Manifest \<Rightarrow> importer
     \<Rightarrow> Manifest outcome \<times> importer" where
  "applyPersisted c svcConfig cfgValue manifest s =
     (case cfgValue of
        CfgArray exposedServices \<Rightarrow>
          (case applyExposedServices (nilResourcePanics c) (Name svcConfig) 0 exposedServices
                  manifest s of
             (None, s') \<Rightarrow> (Panicked, s')
           | (Some m', s') \<Rightarrow> storeManifest (Path svcConfig) m' s')
      | _ \<Rightarrow> storeManifest (Path svcConfig) manifest (emit (LogNotArray (Name svcConfig)) s))"

text \<open>
  Modelled from the spec: \<open>env.Config.Set\<close> belongs to the config package, which is not
  among the sources. The configuration store keeps the value it is given under the key
  (or refuses with an error, which is the collaborator's \<open>Config_Set\<close>).
\<close>

definition configSet :: "config \<Rightarrow> string \<Rightarrow> string list \<Rightarrow> config" where
  "configSet cfg k exposed = cfg(k \<mapsto> CfgStrings exposed)"

text \<open>Lines 288 to 312: the key is absent.\<close>

definition selectAndPersist ::
  "collaborators \<Rightarrow> ServiceConfig \<Rightarrow> Manifest \<Rightarrow> importer \<Rightarrow> Manifest outcome \<times> importer" where
  "selectAndPersist c svcConfig manifest s =
     (let s1 = emit SelectPrompt s in
      case SelectPublicServices c manifest of
        Inl err \<Rightarrow> (ReturnErr (Wrap ''selecting public services'' err), s1)
      | Inr exposed \<Rightarrow>
          (case exposeSelected (nilResourcePanics c) exposed manifest of
             None \<Rightarrow> (Panicked, s1)
           | Some m' \<Rightarrow>
               (let s2 = emit (ConfigSet (exposedServicesKey (Name svcConfig)) exposed) s1 in
                case Config_Set c (exposedServicesKey (Name svcConfig)) exposed of
                  Some err \<Rightarrow> (ReturnErr err, s2)
                | None \<Rightarrow>
                    (let s3 = emit EnvManagerGetValue
                                (s2\<lparr>envConfig :=
                                      configSet (envConfig s2)
                                        (exposedServicesKey (Name svcConfig)) exposed\<rparr>) in
                     case lazyEnvManager_GetValue c of
                       Some err \<Rightarrow> (ReturnErr err, s3)
                     | None \<Rightarrow>
                         (let s4 = emit EnvSave s3 in
                          case envManager_Save c (envConfig s4) of
                            Some err \<Rightarrow> (ReturnErr err, s4)
                          | None \<Rightarrow>
                              storeManifest (Path svcConfig) m'
                                (s4\<lparr>savedConfig := Some (envConfig s4)\<rparr>))))))"

text \<open>Lines 270 to 320: after a successful discovery.\<close>

definition exposeAndStore ::
  "collaborators \<Rightarrow> ServiceConfig \<Rightarrow> Manifest \<Rightarrow> importer \<Rightarrow> Manifest outcome \<times> importer" where
  "exposeAndStore c svcConfig manifest s =
     (let s1 = emit EnvGetValue s in
      case lazyEnv_GetValue c of
        Some err \<Rightarrow> storeManifest (Path svcConfig) manifest (emit (LogEnvError err) s1)
      | None \<Rightarrow>
          (case envConfig s1 (exposedServicesKey (Name svcConfig)) of
             Some cfgValue \<Rightarrow> applyPersisted c svcConfig cfgValue manifest s1
           | None \<Rightarrow> selectAndPersist c svcConfig manifest s1))"

definition readManifest ::
  "collaborators \<Rightarrow> importer \<Rightarrow> ServiceConfig \<Rightarrow> Manifest outcome \<times> importer" where
  "readManifest c s svcConfig =
     (case cache s (Path svcConfig) of
        Some cached \<Rightarrow> (Return cached, s)
      | None \<Rightarrow>
          (let s1 = emit (Discover (Path svcConfig)) s in
           case ManifestFromAppHost c (Path svcConfig) of
             Inl err \<Rightarrow> (ReturnErr err, s1)
           | Inr manifest \<Rightarrow> exposeAndStore c svcConfig manifest s1))"

subsection \<open>SynthAllInfrastructure\<close>

text \<open>
  The memfs library, a third-party package. \<open>fs.ValidPath\<close> refuses empty, \<open>"."\<close> and
  \<open>".."\<close> elements (and names that are not UTF-8, which are not told apart here).
  \<open>MkdirAll\<close> walks down the elements of the path, creates each directory that is
  missing and fails at an element that is a file. \<open>WriteFile\<close> needs the parent
  directory and puts the file under its name there; it refuses to replace a directory.
\<close>

definition ValidPath :: "fpath \<Rightarrow> bool" where
  "ValidPath p = list_all (\<lambda>e. e \<noteq> [] \<and> e \<noteq> ''.'' \<and> e \<noteq> ''..'') p"

fun mkdirParts :: "memfs \<Rightarrow> fpath \<Rightarrow> fpath \<Rightarrow> FileMode \<Rightarrow> error + memfs" where
  "mkdirParts fs cur [] perm = Inr fs"
| "mkdirParts fs cur (part # rest) perm =
     (case fs (cur @ [part]) of
        None \<Rightarrow> mkdirParts (fs(cur @ [part] \<mapsto> DirNode perm)) (cur @ [part]) rest perm
      | Some (DirNode _) \<Rightarrow> mkdirParts fs (cur @ [part]) rest perm
      | Some (FileNode _ _) \<Rightarrow> Inl (Error ''not a directory''))"

definition MkdirAll :: "memfs \<Rightarrow> fpath \<Rightarrow> FileMode \<Rightarrow> error + memfs" where
  "MkdirAll fs p perm =
     (if \<not> ValidPath p then Inl (Error ''invalid path'') else mkdirParts fs [] p perm)"

definition getDir :: "memfs \<Rightarrow> fpath \<Rightarrow> error option" where
  "getDir fs d =
     (if d = [] then None
      else case fs d of
             Some (DirNode _) \<Rightarrow> None
           | Some (FileNode _ _) \<Rightarrow> Some (Error ''not a directory'')
           | None \<Rightarrow> Some (Error ''no such file or directory''))"

definition WriteFile :: "memfs \<Rightarrow> fpath \<Rightarrow> bytes \<Rightarrow> FileMode \<Rightarrow> error + memfs" where
  "WriteFile fs p data perm =
     (if \<not> ValidPath p \<or> p = [] then Inl (Error ''invalid path'')
      else case getDir fs (butlast p) of
             Some err \<Rightarrow> Inl err
           | None \<Rightarrow>
               (case fs p of
                  Some (DirNode _) \<Rightarrow> Inl (Error ''path is a directory'')
                | _ \<Rightarrow> Inr (fs(p \<mapsto> FileNode data perm))))"

text \<open>
  The callback of the walk (lines 201 to 222). \<open>filepath.Dir\<close> drops the last element,
  \<open>filepath.Join\<close> appends. The file is written with the mode \<open>d.Type().Perm()\<close> of its
  entry.
\<close>

fun walkInfra :: "collaborators \<Rightarrow> walk_entry list \<Rightarrow> memfs \<Rightarrow> error + memfs" where
  "walkInfra c [] generatedFS = Inr generatedFS"
| "walkInfra c (WalkFailed p err # rest) generatedFS = Inl err"
| "walkInfra c (WalkedDir p # rest) generatedFS = walkInfra c rest generatedFS"
| "walkInfra c (WalkedFile p typePerm rd # rest) generatedFS =
     (case MkdirAll generatedFS (''infra'' # butlast p) (PermissionDirectoryOwnerOnly c) of
        Inl err \<Rightarrow> Inl err
      | Inr fs1 \<Rightarrow>
          (case rd of
             Inl err \<Rightarrow> Inl err
           | Inr contents \<Rightarrow>
               (case WriteFile fs1 (''infra'' # p) contents typePerm of
                  Inl err \<Rightarrow> Inl err
                | Inr fs2 \<Rightarrow> walkInfra c rest fs2)))"

text \<open>Lines 233 to 238: where the manifest of the project at \<open>path\<close> goes.\<close>

definition manifestPath :: "collaborators \<Rightarrow> ProjectConfig \<Rightarrow> string \<Rightarrow> error + fpath" where
  "manifestPath c p path =
     (case filepath_Rel c (ProjectPath p) path of
        Inl err \<Rightarrow> Inl err
      | Inr projectRelPath \<Rightarrow>
          Inr (butlast projectRelPath @ [''manifests'', ''containerApp.tmpl.yaml'']))"

text \<open>The body of the loop over the projects (lines 228 to 246).\<close>

definition writeProjectManifest ::
  "collaborators \<Rightarrow> ProjectConfig \<Rightarrow> Manifest \<Rightarrow> string \<times> string \<Rightarrow> memfs \<Rightarrow> error + memfs"
  where
  "writeProjectManifest c p manifest entry generatedFS =
     (case ContainerAppManifestTemplateForProject c manifest (fst entry) of
        Inl err \<Rightarrow>
          Inl (Wrap (''generating containerApp.tmpl.yaml for project '' @ fst entry) err)
      | Inr containerAppManifest \<Rightarrow>
          (case manifestPath c p (snd entry) of
             Inl err \<Rightarrow> Inl err
           | Inr mp \<Rightarrow>
               (case MkdirAll generatedFS (butlast mp) (PermissionDirectoryOwnerOnly c) of
                  Inl err \<Rightarrow> Inl err
                | Inr fs1 \<Rightarrow>
                    WriteFile fs1 mp containerAppManifest (PermissionFileOwnerOnly c))))"

fun writeProjectManifests ::
  "collaborators \<Rightarrow> ProjectConfig \<Rightarrow> Manifest \<Rightarrow> (string \<times> string) list \<Rightarrow> memfs
     \<Rightarrow> error + memfs" where
  "writeProjectManifests c p manifest [] generatedFS = Inr generatedFS"
| "writeProjectManifests c p manifest (entry # rest) generatedFS =
     (case writeProjectManifest c p manifest entry generatedFS of
        Inl err \<Rightarrow> Inl err
      | Inr fs1 \<Rightarrow> writeProjectManifests c p manifest rest fs1)"

text \<open>Lines 194 to 249, from the manifest on.\<close>

definition synthFiles :: "collaborators \<Rightarrow> ProjectConfig \<Rightarrow> Manifest \<Rightarrow> memfs outcome" where
  "synthFiles c p manifest =
     (case BicepTemplate c manifest of
        Inl err \<Rightarrow> ReturnErr (Wrap ''generating infra/ folder'' err)
      | Inr infraFS \<Rightarrow>
          (case walkInfra c infraFS Map.empty of
             Inl err \<Rightarrow> ReturnErr err
           | Inr fs1 \<Rightarrow>
               (case writeProjectManifests c p manifest (ProjectPaths c manifest) fs1 of
                  Inl err \<Rightarrow> ReturnErr err
                | Inr fs2 \<Rightarrow> Return fs2)))"

definition SynthAllInfrastructure ::
  "collaborators \<Rightarrow> importer \<Rightarrow> ProjectConfig \<Rightarrow> ServiceConfig \<Rightarrow> memfs outcome \<times> importer"
  where
  "SynthAllInfrastructure c s p svcConfig =
     (case readManifest c s svcConfig of
        (Return manifest, s') \<Rightarrow> (synthFiles c p manifest, s')
      | (ReturnErr err, s') \<Rightarrow> (ReturnErr (Wrap ''generating apphost manifest'' err), s')
      | (Panicked, s') \<Rightarrow> (Panicked, s'))"

subsection \<open>Sequences of calls\<close>

text \<open>
  The life of one process: calls of \<open>CanImport\<close>, \<open>readManifest\<close> (through \<open>Services\<close>
  or \<open>ProjectInfrastructure\<close>) and \<open>SynthAllInfrastructure\<close> on the importer that
  \<open>NewDotNetImporter\<close> made, each with the answers the collaborators give during it.
\<close>

datatype call =
    CallCanImport string
  | CallReadManifest ServiceConfig
  | CallSynthAllInfrastructure ProjectConfig ServiceConfig

fun perform :: "collaborators \<times> call \<Rightarrow> importer \<Rightarrow> importer" where
  "perform (c, CallCanImport projectPath) s = snd (CanImport c s projectPath)"
| "perform (c, CallReadManifest svcConfig) s = snd (readManifest c s svcConfig)"
| "perform (c, CallSynthAllInfrastructure p svcConfig) s =
     snd (SynthAllInfrastructure c s p svcConfig)"

definition runCalls :: "(collaborators \<times> call) list \<Rightarrow> importer \<Rightarrow> importer" where
  "runCalls calls s = fold perform calls s"

text \<open>How often the journal records a discovery of a path, and a probe of one.\<close>

definition discoveries :: "string \<Rightarrow> importer \<Rightarrow> nat" where
  "discoveries p s = count_list (journal s) (Discover p)"

definition probes :: "string \<Rightarrow> importer \<Rightarrow> nat" where
  "probes p s = count_list (journal s) (MsBuildProbe p ''IsAspireHost'')"

section \<open>Properties of the importer\<close>

subsection \<open>Marking bindings external\<close>

text \<open>
  What the two loops over names compute: every binding of the named resources is
  external, everything else is as it was.
\<close>

definition exposeAll :: "string set \<Rightarrow> Manifest \<Rightarrow> Manifest" where
  "exposeAll N m =
     m\<lparr>Resources := (\<lambda>n. map_option (\<lambda>r. if n \<in> N then setExternal r else r) (Resources m n))\<rparr>"

fun stringEntries :: "cfg_value list \<Rightarrow> string list" where
  "stringEntries [] = []"
| "stringEntries (CfgString n # rest) = n # stringEntries rest"
| "stringEntries (_ # rest) = stringEntries rest"

fun notStringLogs :: "string \<Rightarrow> nat \<Rightarrow> cfg_value list \<Rightarrow> event list" where
  "notStringLogs svc idx [] = []"
| "notStringLogs svc idx (CfgString n # rest) = notStringLogs svc (Suc idx) rest"
| "notStringLogs svc idx (_ # rest) = LogNotString svc idx # notStringLogs svc (Suc idx) rest"

lemma Manifest_eqI: "Resources a = Resources b \<Longrightarrow> a = (b :: Manifest)"
  by simp

lemma setExternal_idem: "setExternal (setExternal r) = setExternal r"
  by (simp add: setExternal_def fun_eq_iff option.map_comp comp_def)

lemma Resources_exposeAll:
  "Resources (exposeAll N m) n =
     map_option (\<lambda>r. if n \<in> N then setExternal r else r) (Resources m n)"
  by (simp add: exposeAll_def)

lemma exposeAll_empty: "exposeAll {} m = m"
  by (rule Manifest_eqI) (simp add: fun_eq_iff Resources_exposeAll option.map_ident)

lemma exposeAll_exposeAll: "exposeAll A (exposeAll B m) = exposeAll (B \<union> A) m"
proof (rule Manifest_eqI, rule ext)
  fix n
  show "Resources (exposeAll A (exposeAll B m)) n = Resources (exposeAll (B \<union> A) m) n"
    by (cases "Resources m n") (simp_all add: Resources_exposeAll setExternal_idem)
qed

lemma dom_exposeAll: "dom (Resources (exposeAll N m)) = dom (Resources m)"
  by (auto simp: Resources_exposeAll dom_def)

lemma exposeBindings_eq:
  "exposeBindings np m n =
     (if np \<and> Resources m n = None then None else Some (exposeAll {n} m))"
proof (cases "Resources m n")
  case None
  have "exposeAll {n} m = m"
  proof (rule Manifest_eqI, rule ext)
    fix x
    show "Resources (exposeAll {n} m) x = Resources m x"
      using None by (cases "Resources m x") (auto simp: Resources_exposeAll)
  qed
  with None show ?thesis by (simp add: exposeBindings_def)
next
  case (Some r)
  have "m\<lparr>Resources := (Resources m)(n \<mapsto> setExternal r)\<rparr> = exposeAll {n} m"
  proof (rule Manifest_eqI, rule ext)
    fix x
    show "Resources (m\<lparr>Resources := (Resources m)(n \<mapsto> setExternal r)\<rparr>) x =
          Resources (exposeAll {n} m) x"
      using Some by (cases "Resources m x") (auto simp: Resources_exposeAll)
  qed
  with Some show ?thesis by (simp add: exposeBindings_def)
qed

lemma exposeSelected_eq:
  "exposeSelected np ns m =
     (if np \<and> \<not> set ns \<subseteq> dom (Resources m) then None else Some (exposeAll (set ns) m))"
proof (induction ns arbitrary: m)
  case Nil
  show ?case by (simp add: exposeAll_empty)
next
  case (Cons n ns)
  have ins: "{n} \<union> set ns = insert n (set ns)" by simp
  show ?case
    using Cons.IH [of "exposeAll {n} m"]
    by (cases "Resources m n")
      (auto simp: exposeBindings_eq dom_exposeAll exposeAll_exposeAll ins domIff)
qed

lemma applyExposedServices_Some:
  "exposeSelected np (stringEntries vs) m = Some m' \<Longrightarrow>
   applyExposedServices np svc idx vs m s =
     (Some m', s\<lparr>journal := journal s @ notStringLogs svc idx vs\<rparr>)"
proof (induction np svc idx vs m s rule: applyExposedServices.induct)
  case (2 np svc idx strName rest m s)
  then show ?case
    by (cases "exposeBindings np m strName") simp_all
qed (simp_all add: emit_def)

lemma applyExposedServices_None:
  "exposeSelected np (stringEntries vs) m = None \<Longrightarrow>
   fst (applyExposedServices np svc idx vs m s) = None"
proof (induction np svc idx vs m s rule: applyExposedServices.induct)
  case (2 np svc idx strName rest m s)
  then show ?case
    by (cases "exposeBindings np m strName") simp_all
qed (simp_all add: emit_def)

subsection \<open>The branches of readManifest\<close>

definition isArray :: "cfg_value \<Rightarrow> bool" where
  "isArray v = (case v of CfgArray _ \<Rightarrow> True | _ \<Rightarrow> False)"

lemma readManifest_hit:
  "cache s (Path svc) = Some m \<Longrightarrow> readManifest c s svc = (Return m, s)"
  by (simp add: readManifest_def)

lemma readManifest_discovery_error:
  "cache s (Path svc) = None \<Longrightarrow> ManifestFromAppHost c (Path svc) = Inl e \<Longrightarrow>
   readManifest c s svc = (ReturnErr e, emit (Discover (Path svc)) s)"
  by (simp add: readManifest_def)

lemma readManifest_miss:
  "cache s (Path svc) = None \<Longrightarrow> ManifestFromAppHost c (Path svc) = Inr m \<Longrightarrow>
   readManifest c s svc = exposeAndStore c svc m (emit (Discover (Path svc)) s)"
  by (simp add: readManifest_def)

lemma exposeAndStore_env_error:
  "lazyEnv_GetValue c = Some e \<Longrightarrow>
   exposeAndStore c svc m s =
     (Return m, s\<lparr>cache := (cache s)(Path svc \<mapsto> m),
                  journal := journal s @ [EnvGetValue, LogEnvError e]\<rparr>)"
  by (simp add: exposeAndStore_def storeManifest_def emit_def)

lemma exposeAndStore_not_array:
  "lazyEnv_GetValue c = None \<Longrightarrow> envConfig s (exposedServicesKey (Name svc)) = Some v \<Longrightarrow>
   \<not> isArray v \<Longrightarrow>
   exposeAndStore c svc m s =
     (Return m, s\<lparr>cache := (cache s)(Path svc \<mapsto> m),
                  journal := journal s @ [EnvGetValue, LogNotArray (Name svc)]\<rparr>)"
  by (cases v)
    (simp_all add: exposeAndStore_def applyPersisted_def storeManifest_def emit_def isArray_def)

lemma exposeAndStore_array:
  "lazyEnv_GetValue c = None \<Longrightarrow>
   envConfig s (exposedServicesKey (Name svc)) = Some (CfgArray vs) \<Longrightarrow>
   exposeSelected (nilResourcePanics c) (stringEntries vs) m = Some m' \<Longrightarrow>
   exposeAndStore c svc m s =
     (Return m', s\<lparr>cache := (cache s)(Path svc \<mapsto> m'),
                   journal := journal s @ EnvGetValue # notStringLogs (Name svc) 0 vs\<rparr>)"
  by (simp add: exposeAndStore_def applyPersisted_def storeManifest_def emit_def
      applyExposedServices_Some)

lemma exposeAndStore_array_panic:
  "lazyEnv_GetValue c = None \<Longrightarrow>
   envConfig s (exposedServicesKey (Name svc)) = Some (CfgArray vs) \<Longrightarrow>
   exposeSelected (nilResourcePanics c) (stringEntries vs) m = None \<Longrightarrow>
   fst (exposeAndStore c svc m s) = Panicked"
  using applyExposedServices_None [of "nilResourcePanics c" vs m "Name svc" 0 "emit EnvGetValue s"]
  by (auto simp: exposeAndStore_def applyPersisted_def emit_def split: prod.splits option.splits)

lemma exposeAndStore_absent:
  "lazyEnv_GetValue c = None \<Longrightarrow> envConfig s (exposedServicesKey (Name svc)) = None \<Longrightarrow>
   exposeAndStore c svc m s = selectAndPersist c svc m (emit EnvGetValue s)"
  by (simp add: exposeAndStore_def emit_def)

lemma selectAndPersist_select_error:
  "SelectPublicServices c m = Inl e \<Longrightarrow>
   selectAndPersist c svc m s =
     (ReturnErr (Wrap ''selecting public services'' e), emit SelectPrompt s)"
  by (simp add: selectAndPersist_def configSet_def)

lemma selectAndPersist_panic:
  "SelectPublicServices c m = Inr exposed \<Longrightarrow>
   exposeSelected (nilResourcePanics c) exposed m = None \<Longrightarrow>
   selectAndPersist c svc m s = (Panicked, emit SelectPrompt s)"
  by (simp add: selectAndPersist_def configSet_def)

lemma selectAndPersist_set_error:
  "SelectPublicServices c m = Inr exposed \<Longrightarrow>
   exposeSelected (nilResourcePanics c) exposed m = Some m' \<Longrightarrow>
   Config_Set c (exposedServicesKey (Name svc)) exposed = Some e \<Longrightarrow>
   selectAndPersist c svc m s =
     (ReturnErr e,
      s\<lparr>journal := journal s @ [SelectPrompt, ConfigSet (exposedServicesKey (Name svc)) exposed]\<rparr>)"
  by (simp add: selectAndPersist_def configSet_def emit_def)

lemma selectAndPersist_manager_error:
  "SelectPublicServices c m = Inr exposed \<Longrightarrow>
   exposeSelected (nilResourcePanics c) exposed m = Some m' \<Longrightarrow>
   Config_Set c (exposedServicesKey (Name svc)) exposed = None \<Longrightarrow>
   lazyEnvManager_GetValue c = Some e \<Longrightarrow>
   selectAndPersist c svc m s =
     (ReturnErr e,
      s\<lparr>envConfig := (envConfig s)(exposedServicesKey (Name svc) \<mapsto> CfgStrings exposed),
        journal := journal s @ [SelectPrompt, ConfigSet (exposedServicesKey (Name svc)) exposed,
                                EnvManagerGetValue]\<rparr>)"
  by (simp add: selectAndPersist_def configSet_def emit_def)

lemma selectAndPersist_save_error:
  "SelectPublicServices c m = Inr exposed \<Longrightarrow>
   exposeSelected (nilResourcePanics c) exposed m = Some m' \<Longrightarrow>
   Config_Set c (exposedServicesKey (Name svc)) exposed = None \<Longrightarrow>
   lazyEnvManager_GetValue c = None \<Longrightarrow>
   envManager_Save c ((envConfig s)(exposedServicesKey (Name svc) \<mapsto> CfgStrings exposed)) = Some e \<Longrightarrow>
   selectAndPersist c svc m s =
     (ReturnErr e,
      s\<lparr>envConfig := (envConfig s)(exposedServicesKey (Name svc) \<mapsto> CfgStrings exposed),
        journal := journal s @ [SelectPrompt, ConfigSet (exposedServicesKey (Name svc)) exposed,
                                EnvManagerGetValue, EnvSave]\<rparr>)"
  by (simp add: selectAndPersist_def configSet_def emit_def)

lemma selectAndPersist_ok:
  "SelectPublicServices c m = Inr exposed \<Longrightarrow>
   exposeSelected (nilResourcePanics c) exposed m = Some m' \<Longrightarrow>
   Config_Set c (exposedServicesKey (Name svc)) exposed = None \<Longrightarrow>
   lazyEnvManager_GetValue c = None \<Longrightarrow>
   envManager_Save c ((envConfig s)(exposedServicesKey (Name svc) \<mapsto> CfgStrings exposed)) = None \<Longrightarrow>
   selectAndPersist c svc m s =
     (Return m',
      s\<lparr>cache := (cache s)(Path svc \<mapsto> m'),
        envConfig := (envConfig s)(exposedServicesKey (Name svc) \<mapsto> CfgStrings exposed),
        savedConfig := Some ((envConfig s)(exposedServicesKey (Name svc) \<mapsto> CfgStrings exposed)),
        journal := journal s @ [SelectPrompt, ConfigSet (exposedServicesKey (Name svc)) exposed,
                                EnvManagerGetValue, EnvSave]\<rparr>)"
  by (simp add: selectAndPersist_def configSet_def emit_def storeManifest_def)

subsection \<open>What a call leaves unchanged\<close>

lemma applyExposedServices_fields:
  "cache (snd (applyExposedServices np svc idx vs m s)) = cache s \<and>
   hostCheck (snd (applyExposedServices np svc idx vs m s)) = hostCheck s \<and>
   envConfig (snd (applyExposedServices np svc idx vs m s)) = envConfig s \<and>
   savedConfig (snd (applyExposedServices np svc idx vs m s)) = savedConfig s"
  by (induction np svc idx vs m s rule: applyExposedServices.induct)
    (simp_all add: emit_def split: option.splits)

lemma applyExposedServices_journal:
  "\<exists>es. journal (snd (applyExposedServices np svc idx vs m s)) = journal s @ es \<and>
        set es \<subseteq> range (LogNotString svc)"
proof (induction np svc idx vs m s rule: applyExposedServices.induct)
  case (1 np svc idx m s)
  show ?case by simp
next
  case (2 np svc idx strName rest m s)
  then show ?case
    by (cases "exposeBindings np m strName") auto
qed (force simp: emit_def)+

lemma count_quiet:
  "set es \<subseteq> range (LogNotString svc) \<Longrightarrow> count_list es (Discover q) = 0 \<and> count_list es (MsBuildProbe q a) = 0"
  by (induction es) auto

lemma storeManifest_frame:
  "storeManifest p m s = (r, s') \<Longrightarrow>
   r = Return m \<and> cache s' = (cache s)(p \<mapsto> m) \<and> hostCheck s' = hostCheck s \<and>
   journal s' = journal s"
  by (auto simp: storeManifest_def)

lemma applyPersisted_frame:
  assumes "applyPersisted c svc v m s = (r, s')"
  shows "hostCheck s' = hostCheck s \<and> discoveries q s' = discoveries q s \<and>
         probes q s' = probes q s \<and>
         cache s' = (case r of Return m' \<Rightarrow> (cache s)(Path svc \<mapsto> m') | _ \<Rightarrow> cache s)"
proof (cases "isArray v")
  case False
  with assms show ?thesis
    by (cases v)
      (auto simp: applyPersisted_def storeManifest_def emit_def isArray_def discoveries_def
        probes_def)
next
  case True
  then obtain vs where v: "v = CfgArray vs" by (cases v) (simp_all add: isArray_def)
  let ?a = "applyExposedServices (nilResourcePanics c) (Name svc) 0 vs m s"
  obtain es where es: "journal (snd ?a) = journal s @ es" "set es \<subseteq> range (LogNotString (Name svc))"
    using applyExposedServices_journal by blast
  have cnt: "count_list es (Discover q) = 0" "count_list es (MsBuildProbe q ''IsAspireHost'') = 0"
    using count_quiet [OF es(2)] by simp_all
  have f: "cache (snd ?a) = cache s" "hostCheck (snd ?a) = hostCheck s"
    using applyExposedServices_fields by simp_all
  show ?thesis
  proof (cases "fst ?a")
    case None
    with assms v have "r = Panicked" "s' = snd ?a"
      by (auto simp: applyPersisted_def split: prod.splits)
    with es cnt f show ?thesis by (simp add: discoveries_def probes_def)
  next
    case (Some m')
    with assms v have "r = Return m'" "s' = (snd ?a)\<lparr>cache := (cache (snd ?a))(Path svc \<mapsto> m')\<rparr>"
      by (auto simp: applyPersisted_def storeManifest_def split: prod.splits)
    with es cnt f show ?thesis by (simp add: discoveries_def probes_def)
  qed
qed

lemma selectAndPersist_frame:
  assumes "selectAndPersist c svc m s = (r, s')"
  shows "hostCheck s' = hostCheck s \<and> discoveries q s' = discoveries q s \<and>
         probes q s' = probes q s \<and>
         cache s' = (case r of Return m' \<Rightarrow> (cache s)(Path svc \<mapsto> m') | _ \<Rightarrow> cache s)"
  using assms
  by (auto simp: selectAndPersist_def configSet_def storeManifest_def emit_def Let_def discoveries_def
      probes_def split: sum.splits option.splits)

lemma exposeAndStore_frame:
  assumes "exposeAndStore c svc m s = (r, s')"
  shows "hostCheck s' = hostCheck s \<and> discoveries q s' = discoveries q s \<and>
         probes q s' = probes q s \<and>
         cache s' = (case r of Return m' \<Rightarrow> (cache s)(Path svc \<mapsto> m') | _ \<Rightarrow> cache s)"
proof (cases "lazyEnv_GetValue c")
  case (Some e)
  with assms show ?thesis
    by (auto simp: exposeAndStore_env_error discoveries_def probes_def)
next
  case None
  let ?s1 = "emit EnvGetValue s"
  have s1: "hostCheck ?s1 = hostCheck s" "cache ?s1 = cache s"
    "discoveries q ?s1 = discoveries q s" "probes q ?s1 = probes q s"
    by (simp_all add: emit_def discoveries_def probes_def)
  show ?thesis
  proof (cases "envConfig s (exposedServicesKey (Name svc))")
    case absent: None
    with None assms have "selectAndPersist c svc m ?s1 = (r, s')"
      by (simp add: exposeAndStore_absent)
    from selectAndPersist_frame [OF this, of q] s1 show ?thesis
      by (simp split: outcome.splits)
  next
    case (Some v)
    with None assms have "applyPersisted c svc v m ?s1 = (r, s')"
      by (simp add: exposeAndStore_def emit_def)
    from applyPersisted_frame [OF this, of q] s1 show ?thesis
      by (simp split: outcome.splits)
  qed
qed

lemma readManifest_frame:
  assumes "readManifest c s svc = (r, s')"
  shows "hostCheck s' = hostCheck s \<and> probes q s' = probes q s"
proof (cases "cache s (Path svc)")
  case (Some m)
  with assms show ?thesis by (simp add: readManifest_hit)
next
  case None
  show ?thesis
  proof (cases "ManifestFromAppHost c (Path svc)")
    case (Inl e)
    with None assms show ?thesis
      by (auto simp: readManifest_discovery_error emit_def probes_def)
  next
    case (Inr m)
    with None assms have "exposeAndStore c svc m (emit (Discover (Path svc)) s) = (r, s')"
      by (simp add: readManifest_miss)
    from exposeAndStore_frame [OF this, of q] show ?thesis
      by (simp add: emit_def probes_def)
  qed
qed

lemma readManifest_cache:
  assumes "readManifest c s svc = (r, s')"
  shows "cache s' = (case r of Return m' \<Rightarrow> (cache s)(Path svc \<mapsto> m') | _ \<Rightarrow> cache s)"
proof (cases "cache s (Path svc)")
  case (Some m)
  with assms show ?thesis by (auto simp: readManifest_hit)
next
  case None
  show ?thesis
  proof (cases "ManifestFromAppHost c (Path svc)")
    case (Inl e)
    with None assms show ?thesis
      by (auto simp: readManifest_discovery_error emit_def)
  next
    case (Inr m)
    with None assms have "exposeAndStore c svc m (emit (Discover (Path svc)) s) = (r, s')"
      by (simp add: readManifest_miss)
    from exposeAndStore_frame [OF this, of q] show ?thesis
      by (simp add: emit_def split: outcome.splits)
  qed
qed

lemma readManifest_discoveries:
  assumes "readManifest c s svc = (r, s')"
  shows "discoveries q s' =
           discoveries q s + (if cache s (Path svc) = None \<and> q = Path svc then 1 else 0)"
proof (cases "cache s (Path svc)")
  case (Some m)
  with assms show ?thesis by (auto simp: readManifest_hit)
next
  case None
  show ?thesis
  proof (cases "ManifestFromAppHost c (Path svc)")
    case (Inl e)
    with None assms show ?thesis
      by (auto simp: readManifest_discovery_error emit_def discoveries_def)
  next
    case (Inr m)
    with None assms have "exposeAndStore c svc m (emit (Discover (Path svc)) s) = (r, s')"
      by (simp add: readManifest_miss)
    from exposeAndStore_frame [OF this, of q] None show ?thesis
      by (auto simp: emit_def discoveries_def)
  qed
qed

subsection \<open>The probe cache\<close>

lemma CanImport_hit:
  "hostCheck s p = Some v \<Longrightarrow> CanImport c s p = ((isHost v, hostErr v), s)"
  by (simp add: CanImport_def)

lemma CanImport_stored:
  "hostCheck (snd (CanImport c s p)) p =
     Some \<lparr>isHost = fst (fst (CanImport c s p)), hostErr = snd (fst (CanImport c s p))\<rparr>"
  by (auto simp: CanImport_def emit_def Let_def split: option.splits sum.splits)

lemma CanImport_probes:
  "probes q (snd (CanImport c s p)) =
     probes q s + (if hostCheck s p = None \<and> q = p then 1 else 0)"
  by (auto simp: CanImport_def emit_def Let_def probes_def split: option.splits sum.splits)

lemma CanImport_other:
  "q \<noteq> p \<Longrightarrow> hostCheck (snd (CanImport c s p)) q = hostCheck s q"
  by (auto simp: CanImport_def emit_def Let_def split: option.splits sum.splits)

lemma SynthAllInfrastructure_snd:
  "snd (SynthAllInfrastructure c s p svc) = snd (readManifest c s svc)"
  by (simp add: SynthAllInfrastructure_def split: prod.splits outcome.splits)

text \<open>A path that has no entry in \<open>hostCheck\<close> was never probed; no path was probed twice.\<close>

definition probedOnce :: "string \<Rightarrow> importer \<Rightarrow> bool" where
  "probedOnce p s = (probes p s = (if hostCheck s p = None then 0 else 1))"

lemma probedOnce_perform: "probedOnce p s \<Longrightarrow> probedOnce p (perform x s)"
proof (cases x)
  case (Pair c k)
  assume inv: "probedOnce p s"
  show ?thesis
  proof (cases k)
    case (CallCanImport q)
    show ?thesis
    proof (cases "q = p")
      case True
      with inv Pair CallCanImport show ?thesis
        using CanImport_stored [of c s p] CanImport_probes [of p c s p]
        by (auto simp: probedOnce_def)
    next
      case False
      with inv Pair CallCanImport show ?thesis
        using CanImport_other [of p q c s] CanImport_probes [of p c s q]
        by (auto simp: probedOnce_def)
    qed
  next
    case (CallReadManifest svc)
    with inv Pair show ?thesis
      using readManifest_frame [of c s svc "fst (readManifest c s svc)" "snd (readManifest c s svc)" p]
      by (simp add: probedOnce_def)
  next
    case (CallSynthAllInfrastructure prj svc)
    with inv Pair show ?thesis
      using readManifest_frame [of c s svc "fst (readManifest c s svc)" "snd (readManifest c s svc)" p]
      by (simp add: probedOnce_def SynthAllInfrastructure_snd)
  qed
qed

lemma probedOnce_runCalls: "probedOnce p s \<Longrightarrow> probedOnce p (runCalls calls s)"
  unfolding runCalls_def
  by (induction calls arbitrary: s) (simp_all add: probedOnce_perform)

lemma probedOnce_New: "probedOnce p (NewDotNetImporter cfg)"
  by (simp add: probedOnce_def NewDotNetImporter_def probes_def)

lemma CanImport_cache:
  "cache (snd (CanImport c s p)) = cache s \<and>
   discoveries q (snd (CanImport c s p)) = discoveries q s"
  by (auto simp: CanImport_def emit_def Let_def discoveries_def split: option.splits sum.splits)

lemma CanImport_miss:
  "hostCheck s p = None \<Longrightarrow>
   fst (CanImport c s p) =
     (case GetMsBuildProperty c p ''IsAspireHost'' of
        Inl err \<Rightarrow> (False, Some err)
      | Inr v \<Rightarrow> (TrimSpace v = ''true'', None)) \<and>
   journal (snd (CanImport c s p)) = journal s @ [MsBuildProbe p ''IsAspireHost'']"
  by (simp add: CanImport_def emit_def Let_def split: sum.splits)

lemma CanImport_hostCheck:
  "hostCheck (snd (CanImport c s p)) =
     (hostCheck s)(p \<mapsto> \<lparr>isHost = fst (fst (CanImport c s p)),
                          hostErr = snd (fst (CanImport c s p))\<rparr>)"
  by (auto simp: CanImport_def emit_def Let_def split: option.splits sum.splits)

lemma perform_keeps_probe:
  assumes "hostCheck s p = Some v"
  shows "hostCheck (perform x s) p = Some v \<and> probes p (perform x s) = probes p s"
proof (cases x)
  case (Pair c k)
  show ?thesis
  proof (cases k)
    case (CallCanImport q)
    show ?thesis
    proof (cases "q = p")
      case True
      with assms Pair CallCanImport show ?thesis by (simp add: CanImport_hit)
    next
      case False
      with assms Pair CallCanImport show ?thesis
        using CanImport_other [of p q c s] CanImport_probes [of p c s q] by simp
    qed
  next
    case (CallReadManifest svc)
    with assms Pair show ?thesis
      using readManifest_frame [of c s svc "fst (readManifest c s svc)" "snd (readManifest c s svc)" p]
      by simp
  next
    case (CallSynthAllInfrastructure prj svc)
    with assms Pair show ?thesis
      using readManifest_frame [of c s svc "fst (readManifest c s svc)" "snd (readManifest c s svc)" p]
      by (simp add: SynthAllInfrastructure_snd)
  qed
qed

lemma runCalls_keeps_probe:
  "hostCheck s p = Some v \<Longrightarrow>
   hostCheck (runCalls calls s) p = Some v \<and> probes p (runCalls calls s) = probes p s"
  unfolding runCalls_def
proof (induction calls arbitrary: s)
  case Nil
  then show ?case by simp
next
  case (Cons x calls)
  from perform_keeps_probe [OF Cons.prems, of x]
  have a: "hostCheck (perform x s) p = Some v" and b: "probes p (perform x s) = probes p s"
    by simp_all
  from Cons.IH [OF a] b show ?case by simp
qed

subsection \<open>Concrete scenarios\<close>

definition httpBinding :: Binding where
  "httpBinding =
     \<lparr>transportKind = ''http'', targetPort = 8080, transportMode = ''http'', External = False,
      insecureAllowed = False\<rparr>"

definition grpcBinding :: Binding where
  "grpcBinding =
     \<lparr>transportKind = ''tcp'', targetPort = 5001, transportMode = ''http2'', External = False,
      insecureAllowed = True\<rparr>"

definition webResource :: Resource where
  "webResource =
     \<lparr>Kind = ''project.v0'', Bindings = [''http'' \<mapsto> httpBinding, ''grpc'' \<mapsto> grpcBinding],
      Env = Map.empty, Image = None, BuildContext = None\<rparr>"

definition apiResource :: Resource where
  "apiResource =
     \<lparr>Kind = ''project.v0'', Bindings = [''http'' \<mapsto> httpBinding],
      Env = Map.empty, Image = None, BuildContext = None\<rparr>"

definition sampleManifest :: Manifest where
  "sampleManifest = \<lparr>Resources = [''web'' \<mapsto> webResource, ''api'' \<mapsto> apiResource]\<rparr>"

definition sampleService :: ServiceConfig where
  "sampleService = \<lparr>Name = ''app'', Path = ''/work/AppHost/AppHost.csproj''\<rparr>"

definition sampleProject :: ProjectConfig where
  "sampleProject = \<lparr>ProjectPath = ''/work''\<rparr>"

definition sampleRel :: "string \<Rightarrow> string \<Rightarrow> error + fpath" where
  "sampleRel base target =
     (if base = ''/work'' \<and> target = ''/work/Web/Web.csproj'' then Inr [''Web'', ''Web.csproj'']
      else if base = ''/work'' \<and> target = ''/work/Api/Api.csproj'' then Inr [''Api'', ''Api.csproj'']
      else if base = ''/work'' \<and> target = ''/work/Api/Jobs.csproj'' then Inr [''Api'', ''Jobs.csproj'']
      else Inl (Error ''Rel: cannot make the path relative''))"

text \<open>Collaborators that all succeed; the user selects \<open>web\<close>.\<close>

definition obliging :: collaborators where
  "obliging =
     \<lparr>ManifestFromAppHost = (\<lambda>_. Inr sampleManifest),
      lazyEnv_GetValue = None,
      SelectPublicServices = (\<lambda>_. Inr [''web'']),
      Config_Set = (\<lambda>_ _. None),
      lazyEnvManager_GetValue = None,
      envManager_Save = (\<lambda>_. None),
      GetMsBuildProperty = (\<lambda>_ _. Inr ''true''),
      nilResourcePanics = True,
      BicepTemplate = (\<lambda>_. Inr [WalkedDir [], WalkedFile [''main.bicep''] 0 (Inr ''targetScope'')]),
      ProjectPaths = (\<lambda>_. [(''web'', ''/work/Web/Web.csproj''), (''api'', ''/work/Api/Api.csproj'')]),
      ContainerAppManifestTemplateForProject = (\<lambda>_ n. Inr (''name: '' @ n)),
      filepath_Rel = sampleRel,
      PermissionDirectoryOwnerOnly = 448,
      PermissionFileOwnerOnly = 384\<rparr>"

text \<open>The same, but the app host fails to produce its manifest.\<close>

definition noManifest :: collaborators where
  "noManifest = obliging\<lparr>ManifestFromAppHost := (\<lambda>_. Inl (Error ''dotnet run failed''))\<rparr>"

definition fresh :: importer where
  "fresh = NewDotNetImporter Map.empty"

lemma fresh_simps:
  "cache fresh = Map.empty" "hostCheck fresh = Map.empty" "envConfig fresh = Map.empty"
  "savedConfig fresh = None" "journal fresh = []"
  by (simp_all add: fresh_def NewDotNetImporter_def)

lemma obliging_simps:
  "ManifestFromAppHost obliging p = Inr sampleManifest"
  "lazyEnv_GetValue obliging = None"
  "SelectPublicServices obliging m = Inr [''web'']"
  "Config_Set obliging k ns = None"
  "lazyEnvManager_GetValue obliging = None"
  "envManager_Save obliging cfg = None"
  "nilResourcePanics obliging = True"
  by (simp_all add: obliging_def)

lemma sampleManifest_dom: "dom (Resources sampleManifest) = {''web'', ''api''}"
  by (auto simp: sampleManifest_def)

lemma obliging_select:
  "selectAndPersist obliging sampleService sampleManifest s =
     (Return (exposeAll {''web''} sampleManifest),
      s\<lparr>cache := (cache s)(Path sampleService \<mapsto> exposeAll {''web''} sampleManifest),
        envConfig := (envConfig s)(exposedServicesKey (Name sampleService) \<mapsto> CfgStrings [''web'']),
        savedConfig :=
          Some ((envConfig s)(exposedServicesKey (Name sampleService) \<mapsto> CfgStrings [''web''])),
        journal := journal s @ [SelectPrompt,
                                ConfigSet (exposedServicesKey (Name sampleService)) [''web''],
                                EnvManagerGetValue, EnvSave]\<rparr>)"
proof (rule selectAndPersist_ok)
  show "exposeSelected (nilResourcePanics obliging) [''web''] sampleManifest =
          Some (exposeAll {''web''} sampleManifest)"
    by (simp add: exposeSelected_eq sampleManifest_dom obliging_simps)
qed (simp_all add: obliging_simps)

lemma obliging_first:
  "readManifest obliging fresh sampleService =
     (Return (exposeAll {''web''} sampleManifest),
      fresh\<lparr>cache := [Path sampleService \<mapsto> exposeAll {''web''} sampleManifest],
            envConfig := [exposedServicesKey (Name sampleService) \<mapsto> CfgStrings [''web'']],
            savedConfig := Some [exposedServicesKey (Name sampleService) \<mapsto> CfgStrings [''web'']],
            journal := [Discover (Path sampleService), EnvGetValue, SelectPrompt,
                        ConfigSet (exposedServicesKey (Name sampleService)) [''web''],
                        EnvManagerGetValue, EnvSave]\<rparr>)"
  by (simp add: readManifest_miss [where m = sampleManifest] fresh_simps obliging_simps
      exposeAndStore_absent emit_def obliging_select)

subsection \<open>Memoizing the probe\<close>

text \<open>
  The build answers \<open>true\<close> with a line end; the project file cannot be read; a second
  app host.
\<close>

definition trimmed :: collaborators where
  "trimmed = obliging\<lparr>GetMsBuildProperty := (\<lambda>_ _. Inr [CHR ''t'', CHR ''r'', CHR ''u'', CHR ''e'', CHR 0x0D, CHR 0x0A])\<rparr>"

definition notBuildable :: collaborators where
  "notBuildable =
     obliging\<lparr>GetMsBuildProperty := (\<lambda>_ _. Inl (Error ''MSB1009: Project file does not exist.''))\<rparr>"

definition otherService :: ServiceConfig where
  "otherService = \<lparr>Name = ''other'', Path = ''/work/Other/Other.csproj''\<rparr>"

lemma TrimSpace_sample:
  "TrimSpace [CHR ''t'', CHR ''r'', CHR ''u'', CHR ''e'', CHR 0x0D, CHR 0x0A] = ''true''"
  by (simp add: TrimSpace_def trimLeft.simps trimRight.simps leadingSpace_def trailingSpace_def
      asciiSpace_def space2_def space3_def)

text \<open>
  Claim C7. \<open>CanImport\<close> memoizes the probe per project path. A call for a path that has
  no stored outcome reads the MSBuild property once and returns what the probe
  answered: false with the error when it failed, and otherwise, without error, whether
  the trimmed value is \<open>true\<close>. A call for a path that has a stored outcome returns it and
  reads nothing. Either way the pair returned is the one stored under the path
  afterwards, and the other paths keep what they had. After any further calls of the
  importer, whatever the collaborators answer during them and then, a call for the path
  returns that same pair and changes nothing, and the property of the path has not been
  read again. In every sequence of calls on a fresh importer the property of a path is
  read at most once.
\<close>

theorem CanImport_memoizes:
  "fst (CanImport c s p) =
     (case hostCheck s p of
        Some v \<Rightarrow> (isHost v, hostErr v)
      | None \<Rightarrow>
          (case GetMsBuildProperty c p ''IsAspireHost'' of
             Inl err \<Rightarrow> (False, Some err)
           | Inr v \<Rightarrow> (TrimSpace v = ''true'', None))) \<and>
   journal (snd (CanImport c s p)) =
     journal s @ (case hostCheck s p of
                    Some v \<Rightarrow> []
                  | None \<Rightarrow> [MsBuildProbe p ''IsAspireHost'']) \<and>
   hostCheck (snd (CanImport c s p)) =
     (hostCheck s)(p \<mapsto> \<lparr>isHost = fst (fst (CanImport c s p)),
                          hostErr = snd (fst (CanImport c s p))\<rparr>) \<and>
   CanImport c' (runCalls calls (snd (CanImport c s p))) p =
     (fst (CanImport c s p), runCalls calls (snd (CanImport c s p))) \<and>
   probes p (runCalls calls (snd (CanImport c s p))) = probes p (snd (CanImport c s p)) \<and>
   probes p (runCalls calls (NewDotNetImporter cfg)) \<le> 1"
proof (intro conjI)
  show "fst (CanImport c s p) =
     (case hostCheck s p of
        Some v \<Rightarrow> (isHost v, hostErr v)
      | None \<Rightarrow>
          (case GetMsBuildProperty c p ''IsAspireHost'' of
             Inl err \<Rightarrow> (False, Some err)
           | Inr v \<Rightarrow> (TrimSpace v = ''true'', None)))"
    by (cases "hostCheck s p") (simp_all add: CanImport_miss CanImport_hit)
  show "journal (snd (CanImport c s p)) =
     journal s @ (case hostCheck s p of
                    Some v \<Rightarrow> []
                  | None \<Rightarrow> [MsBuildProbe p ''IsAspireHost''])"
    by (cases "hostCheck s p") (simp_all add: CanImport_miss CanImport_hit)
  show "hostCheck (snd (CanImport c s p)) =
     (hostCheck s)(p \<mapsto> \<lparr>isHost = fst (fst (CanImport c s p)),
                          hostErr = snd (fst (CanImport c s p))\<rparr>)"
    by (rule CanImport_hostCheck)
  let ?s1 = "snd (CanImport c s p)"
  let ?v = "\<lparr>isHost = fst (fst (CanImport c s p)), hostErr = snd (fst (CanImport c s p))\<rparr>"
  have stored: "hostCheck ?s1 p = Some ?v" by (rule CanImport_stored)
  from runCalls_keeps_probe [OF stored, of calls]
  have kept: "hostCheck (runCalls calls ?s1) p = Some ?v"
    and quiet: "probes p (runCalls calls ?s1) = probes p ?s1"
    by simp_all
  from CanImport_hit [OF kept, of c']
  show "CanImport c' (runCalls calls ?s1) p = (fst (CanImport c s p), runCalls calls ?s1)"
    by simp
  from quiet show "probes p (runCalls calls ?s1) = probes p ?s1" .
  have "probedOnce p (runCalls calls (NewDotNetImporter cfg))"
    by (rule probedOnce_runCalls) (rule probedOnce_New)
  then show "probes p (runCalls calls (NewDotNetImporter cfg)) \<le> 1"
    by (simp add: probedOnce_def split: if_splits)
qed

text \<open>
  The claim at work: a value with a line end counts as \<open>true\<close>; a probe that failed is
  answered from the store, with its error, after a probe of another path and a reading
  of the manifest, although the build would answer by then, and the property was read
  once.
\<close>

theorem CanImport_memoizes_witness:
  "fst (CanImport trimmed fresh (Path sampleService)) = (True, None) \<and>
   fst (CanImport notBuildable fresh (Path sampleService)) =
     (False, Some (Error ''MSB1009: Project file does not exist.'')) \<and>
   CanImport trimmed
       (runCalls [(trimmed, CallCanImport (Path otherService)),
                  (obliging, CallReadManifest sampleService)]
          (snd (CanImport notBuildable fresh (Path sampleService))))
       (Path sampleService) =
     ((False, Some (Error ''MSB1009: Project file does not exist.'')),
      runCalls [(trimmed, CallCanImport (Path otherService)),
                (obliging, CallReadManifest sampleService)]
        (snd (CanImport notBuildable fresh (Path sampleService)))) \<and>
   probes (Path sampleService)
     (runCalls [(trimmed, CallCanImport (Path otherService)),
                (obliging, CallReadManifest sampleService)]
        (snd (CanImport notBuildable fresh (Path sampleService)))) = 1"
proof -
  let ?calls = "[(trimmed, CallCanImport (Path otherService)),
                 (obliging, CallReadManifest sampleService)]"
  note T1 = CanImport_memoizes [where c = trimmed and s = fresh and p = "Path sampleService"]
  note T2 = CanImport_memoizes [where c = notBuildable and s = fresh and p = "Path sampleService"
      and c' = trimmed and calls = ?calls]
  have a: "fst (CanImport trimmed fresh (Path sampleService)) = (True, None)"
    using T1 [THEN conjunct1] by (simp add: fresh_simps trimmed_def TrimSpace_sample)
  have b: "fst (CanImport notBuildable fresh (Path sampleService)) =
             (False, Some (Error ''MSB1009: Project file does not exist.''))"
    using T2 [THEN conjunct1] by (simp add: fresh_simps notBuildable_def)
  have j: "journal (snd (CanImport notBuildable fresh (Path sampleService))) =
             [MsBuildProbe (Path sampleService) ''IsAspireHost'']"
    using T2 [THEN conjunct2, THEN conjunct1] by (simp add: fresh_simps)
  have c: "CanImport trimmed (runCalls ?calls (snd (CanImport notBuildable fresh (Path sampleService))))
             (Path sampleService) =
           ((False, Some (Error ''MSB1009: Project file does not exist.'')),
            runCalls ?calls (snd (CanImport notBuildable fresh (Path sampleService))))"
    using T2 b by simp
  have d: "probes (Path sampleService)
             (runCalls ?calls (snd (CanImport notBuildable fresh (Path sampleService)))) = 1"
    using T2 j by (simp add: probes_def)
  from a b c d show ?thesis by blast
qed

subsection \<open>Persisted exposure decisions\<close>

lemma stringEntries_map [simp]: "stringEntries (map CfgString names) = names"
  by (induction names) simp_all

lemma notStringLogs_map [simp]: "notStringLogs svc idx (map CfgString names) = []"
  by (induction names arbitrary: idx) simp_all

lemma exposeSelected_ok:
  "(nilResourcePanics c \<longrightarrow> set ns \<subseteq> dom (Resources m)) \<Longrightarrow>
   exposeSelected (nilResourcePanics c) ns m = Some (exposeAll (set ns) m)"
  by (auto simp: exposeSelected_eq)

lemma Bindings_setExternal:
  "Bindings (setExternal r) k = map_option (\<lambda>b. b\<lparr>External := True\<rparr>) (Bindings r k)"
  by (simp add: setExternal_def)

lemma SynthAllInfrastructure_error:
  "fst (readManifest c s svc) = ReturnErr e \<Longrightarrow>
   SynthAllInfrastructure c s p svc =
     (ReturnErr (Wrap ''generating apphost manifest'' e), snd (readManifest c s svc))"
  by (cases "readManifest c s svc") (simp add: SynthAllInfrastructure_def)

text \<open>A fresh importer whose environment holds a value under the key of the sample service.\<close>

definition persisted :: "cfg_value \<Rightarrow> importer" where
  "persisted v = NewDotNetImporter [exposedServicesKey ''app'' \<mapsto> v]"

lemma persisted_simps:
  "cache (persisted v) = Map.empty" "hostCheck (persisted v) = Map.empty"
  "envConfig (persisted v) (exposedServicesKey (Name sampleService)) = Some v"
  "savedConfig (persisted v) = None" "journal (persisted v) = []"
  by (simp_all add: persisted_def NewDotNetImporter_def sampleService_def)

text \<open>
  Claim C2. Take a call that runs the discovery and gets the environment. If the
  environment holds a list of names of resources of the manifest under
  \<open>services.<name>.config.exposedServices\<close>, the call returns and caches a manifest in
  which every binding of every named resource is external, and its whole trace is the
  discovery and the loading of the environment: there is no prompt. If the key is
  absent, the user is prompted; the names selected are handed to \<open>Config.Set\<close> under the
  same key, and are the value of the key once the store has accepted them.
\<close>

theorem persisted_exposure_applied:
  assumes "cache s (Path svc) = None"
    and "ManifestFromAppHost c (Path svc) = Inr m"
    and "lazyEnv_GetValue c = None"
  shows
    "(envConfig s (exposedServicesKey (Name svc)) = Some (CfgArray (map CfgString names)) \<and>
      (nilResourcePanics c \<longrightarrow> set names \<subseteq> dom (Resources m)) \<longrightarrow>
        (\<exists>m'. readManifest c s svc =
                 (Return m',
                  s\<lparr>cache := (cache s)(Path svc \<mapsto> m'),
                    journal := journal s @ [Discover (Path svc), EnvGetValue]\<rparr>) \<and>
              (\<forall>n r k b. n \<in> set names \<and> Resources m n = Some r \<and> Bindings r k = Some b \<longrightarrow>
                 (\<exists>r'. Resources m' n = Some r' \<and> Bindings r' k = Some (b\<lparr>External := True\<rparr>))))) \<and>
     (envConfig s (exposedServicesKey (Name svc)) = None \<longrightarrow>
        SelectPrompt \<in> set (journal (snd (readManifest c s svc))) \<and>
        (SelectPublicServices c m = Inr exposed \<and>
         (nilResourcePanics c \<longrightarrow> set exposed \<subseteq> dom (Resources m)) \<longrightarrow>
           ConfigSet (exposedServicesKey (Name svc)) exposed
             \<in> set (journal (snd (readManifest c s svc))) \<and>
           (Config_Set c (exposedServicesKey (Name svc)) exposed = None \<longrightarrow>
              envConfig (snd (readManifest c s svc)) (exposedServicesKey (Name svc)) =
                Some (CfgStrings exposed))))"
proof (intro conjI impI)
  assume a: "envConfig s (exposedServicesKey (Name svc)) = Some (CfgArray (map CfgString names)) \<and>
      (nilResourcePanics c \<longrightarrow> set names \<subseteq> dom (Resources m))"
  let ?m' = "exposeAll (set names) m"
  let ?s1 = "emit (Discover (Path svc)) s"
  have sel: "exposeSelected (nilResourcePanics c) (stringEntries (map CfgString names)) m = Some ?m'"
    using a by (simp add: exposeSelected_ok)
  have cfg: "envConfig ?s1 (exposedServicesKey (Name svc)) = Some (CfgArray (map CfgString names))"
    using a by (simp add: emit_def)
  have "readManifest c s svc =
          (Return ?m', s\<lparr>cache := (cache s)(Path svc \<mapsto> ?m'),
                         journal := journal s @ [Discover (Path svc), EnvGetValue]\<rparr>)"
    by (simp add: readManifest_miss [OF assms(1,2)] exposeAndStore_array [OF assms(3) cfg sel])
      (simp add: emit_def)
  moreover have "\<forall>n r k b. n \<in> set names \<and> Resources m n = Some r \<and> Bindings r k = Some b \<longrightarrow>
                 (\<exists>r'. Resources ?m' n = Some r' \<and> Bindings r' k = Some (b\<lparr>External := True\<rparr>))"
    by (simp add: Resources_exposeAll Bindings_setExternal)
  ultimately show "\<exists>m'. readManifest c s svc =
                 (Return m',
                  s\<lparr>cache := (cache s)(Path svc \<mapsto> m'),
                    journal := journal s @ [Discover (Path svc), EnvGetValue]\<rparr>) \<and>
              (\<forall>n r k b. n \<in> set names \<and> Resources m n = Some r \<and> Bindings r k = Some b \<longrightarrow>
                 (\<exists>r'. Resources m' n = Some r' \<and> Bindings r' k = Some (b\<lparr>External := True\<rparr>)))"
    by blast
next
  assume absent: "envConfig s (exposedServicesKey (Name svc)) = None"
  let ?s1 = "emit EnvGetValue (emit (Discover (Path svc)) s)"
  have rm: "readManifest c s svc = selectAndPersist c svc m ?s1"
    using absent by (simp add: readManifest_miss [OF assms(1,2)] exposeAndStore_absent [OF assms(3)] emit_def)
  show "SelectPrompt \<in> set (journal (snd (readManifest c s svc)))"
    unfolding rm
    by (simp add: selectAndPersist_def configSet_def emit_def storeManifest_def Let_def
        split: sum.splits option.splits)
  assume b: "SelectPublicServices c m = Inr exposed \<and>
         (nilResourcePanics c \<longrightarrow> set exposed \<subseteq> dom (Resources m))"
  then have sel: "exposeSelected (nilResourcePanics c) exposed m = Some (exposeAll (set exposed) m)"
    by (simp add: exposeSelected_ok)
  show "ConfigSet (exposedServicesKey (Name svc)) exposed \<in> set (journal (snd (readManifest c s svc)))"
    unfolding rm using b sel
    by (simp add: selectAndPersist_def configSet_def emit_def storeManifest_def Let_def
        split: sum.splits option.splits)
  assume "Config_Set c (exposedServicesKey (Name svc)) exposed = None"
  then show "envConfig (snd (readManifest c s svc)) (exposedServicesKey (Name svc)) =
                Some (CfgStrings exposed)"
    unfolding rm using b sel
    by (simp add: selectAndPersist_def configSet_def emit_def storeManifest_def Let_def
        split: sum.splits option.splits)
qed

lemma sampleManifest_web: "Resources sampleManifest ''web'' = Some webResource"
  by (simp add: sampleManifest_def)

lemma webResource_http: "Bindings webResource ''http'' = Some httpBinding"
  by (simp add: webResource_def)

text \<open>
  With \<open>web\<close> persisted, the http binding of \<open>web\<close> comes back external and nobody is
  asked; with nothing persisted the user is asked and \<open>web\<close>, the answer, is written.
\<close>

theorem persisted_exposure_applied_witness:
  "(case fst (readManifest obliging (persisted (CfgArray [CfgString ''web''])) sampleService) of
      Return m' \<Rightarrow>
        (case Resources m' ''web'' of
           Some r' \<Rightarrow> Bindings r' ''http'' = Some (httpBinding\<lparr>External := True\<rparr>)
         | None \<Rightarrow> False)
    | _ \<Rightarrow> False) \<and>
   journal (snd (readManifest obliging (persisted (CfgArray [CfgString ''web''])) sampleService)) =
     [Discover (Path sampleService), EnvGetValue] \<and>
   SelectPrompt \<in> set (journal (snd (readManifest obliging fresh sampleService))) \<and>
   ConfigSet (exposedServicesKey (Name sampleService)) [''web'']
     \<in> set (journal (snd (readManifest obliging fresh sampleService))) \<and>
   envConfig (snd (readManifest obliging fresh sampleService))
       (exposedServicesKey (Name sampleService)) = Some (CfgStrings [''web''])"
proof -
  let ?s = "persisted (CfgArray [CfgString ''web''])"
  have names: "nilResourcePanics obliging \<longrightarrow> set [''web''] \<subseteq> dom (Resources sampleManifest)"
    by (simp add: sampleManifest_dom)
  have cfg: "envConfig ?s (exposedServicesKey (Name sampleService)) =
               Some (CfgArray (map CfgString [''web'']))"
    by (simp add: persisted_simps)
  from persisted_exposure_applied
    [where s = ?s and svc = sampleService and c = obliging and m = sampleManifest
       and names = "[''web'']"]
    cfg names
  obtain m' where
    rm: "readManifest obliging ?s sampleService =
           (Return m', ?s\<lparr>cache := (cache ?s)(Path sampleService \<mapsto> m'),
                          journal := journal ?s @ [Discover (Path sampleService), EnvGetValue]\<rparr>)"
    and ex: "\<forall>n r k b. n \<in> set [''web''] \<and> Resources sampleManifest n = Some r \<and> Bindings r k = Some b \<longrightarrow>
                 (\<exists>r'. Resources m' n = Some r' \<and> Bindings r' k = Some (b\<lparr>External := True\<rparr>))"
    by (auto simp: persisted_simps obliging_simps)
  from ex sampleManifest_web webResource_http
  obtain r' where "Resources m' ''web'' = Some r'"
    "Bindings r' ''http'' = Some (httpBinding\<lparr>External := True\<rparr>)"
    by auto
  then have p1: "(case fst (readManifest obliging ?s sampleService) of
      Return m' \<Rightarrow>
        (case Resources m' ''web'' of
           Some r' \<Rightarrow> Bindings r' ''http'' = Some (httpBinding\<lparr>External := True\<rparr>)
         | None \<Rightarrow> False)
    | _ \<Rightarrow> False)"
    by (simp add: rm)
  have p2: "journal (snd (readManifest obliging ?s sampleService)) =
     [Discover (Path sampleService), EnvGetValue]"
    by (simp add: rm persisted_simps)
  from persisted_exposure_applied
    [where s = fresh and svc = sampleService and c = obliging and m = sampleManifest
       and exposed = "[''web'']"]
    names
  have p3: "SelectPrompt \<in> set (journal (snd (readManifest obliging fresh sampleService))) \<and>
   ConfigSet (exposedServicesKey (Name sampleService)) [''web'']
     \<in> set (journal (snd (readManifest obliging fresh sampleService))) \<and>
   envConfig (snd (readManifest obliging fresh sampleService))
       (exposedServicesKey (Name sampleService)) = Some (CfgStrings [''web''])"
    by (simp add: fresh_simps obliging_simps)
  from p1 p2 p3 show ?thesis by blast
qed

subsection \<open>Malformed persisted entries\<close>

lemma set_stringEntries: "set (stringEntries vs) = {n. CfgString n \<in> set vs}"
  by (induction vs rule: stringEntries.induct) auto

lemma set_notStringLogs:
  "set (notStringLogs svc idx vs) =
     {LogNotString svc (idx + i) | i. i < length vs \<and> (\<forall>n. vs ! i \<noteq> CfgString n)}"
proof (induction svc idx vs rule: notStringLogs.induct)
  case (1 svc idx)
  show ?case by simp
next
  case (2 svc idx n rest)
  have "{LogNotString svc (idx + i) | i. i < length (CfgString n # rest) \<and>
           (\<forall>k. (CfgString n # rest) ! i \<noteq> CfgString k)} =
        {LogNotString svc (Suc idx + j) | j. j < length rest \<and> (\<forall>k. rest ! j \<noteq> CfgString k)}"
    (is "?L = ?R")
  proof (intro equalityI subsetI)
    fix e assume "e \<in> ?L"
    then obtain i where i: "e = LogNotString svc (idx + i)" "i < length (CfgString n # rest)"
      "\<forall>k. (CfgString n # rest) ! i \<noteq> CfgString k" by blast
    then obtain j where "i = Suc j" by (cases i) auto
    with i show "e \<in> ?R" by auto
  next
    fix e assume "e \<in> ?R"
    then obtain j where "e = LogNotString svc (Suc idx + j)" "j < length rest"
      "\<forall>k. rest ! j \<noteq> CfgString k" by blast
    then have "e = LogNotString svc (idx + Suc j) \<and> Suc j < length (CfgString n # rest) \<and>
      (\<forall>k. (CfgString n # rest) ! Suc j \<noteq> CfgString k)" by simp
    then show "e \<in> ?L" by blast
  qed
  with 2 show ?case by simp
qed (auto simp: less_Suc_eq_0_disj)

lemma obliging_persisted_array:
  "set (stringEntries vs) \<subseteq> {''web'', ''api''} \<Longrightarrow>
   readManifest obliging (persisted (CfgArray vs)) sampleService =
     (Return (exposeAll (set (stringEntries vs)) sampleManifest),
      (persisted (CfgArray vs))
        \<lparr>cache := [Path sampleService \<mapsto> exposeAll (set (stringEntries vs)) sampleManifest],
         journal := [Discover (Path sampleService), EnvGetValue] @ notStringLogs ''app'' 0 vs\<rparr>)"
proof -
  assume sub: "set (stringEntries vs) \<subseteq> {''web'', ''api''}"
  let ?s1 = "emit (Discover (Path sampleService)) (persisted (CfgArray vs))"
  have cfg: "envConfig ?s1 (exposedServicesKey (Name sampleService)) = Some (CfgArray vs)"
    by (simp add: emit_def persisted_simps)
  have sel: "exposeSelected (nilResourcePanics obliging) (stringEntries vs) sampleManifest =
               Some (exposeAll (set (stringEntries vs)) sampleManifest)"
    using sub by (simp add: exposeSelected_eq sampleManifest_dom)
  have env: "lazyEnv_GetValue obliging = None" by (simp add: obliging_simps)
  show ?thesis
    by (simp add: readManifest_miss [where m = sampleManifest] persisted_simps obliging_simps
        exposeAndStore_array [OF env cfg sel])
      (simp add: emit_def persisted_simps sampleService_def)
qed

lemma obliging_persisted_other:
  "\<not> isArray v \<Longrightarrow>
   readManifest obliging (persisted v) sampleService =
     (Return sampleManifest,
      (persisted v)
        \<lparr>cache := [Path sampleService \<mapsto> sampleManifest],
         journal := [Discover (Path sampleService), EnvGetValue, LogNotArray ''app'']\<rparr>)"
proof -
  assume na: "\<not> isArray v"
  let ?s1 = "emit (Discover (Path sampleService)) (persisted v)"
  have cfg: "envConfig ?s1 (exposedServicesKey (Name sampleService)) = Some v"
    by (simp add: emit_def persisted_simps)
  have env: "lazyEnv_GetValue obliging = None" by (simp add: obliging_simps)
  show ?thesis
    by (simp add: readManifest_miss [where m = sampleManifest] persisted_simps obliging_simps
        exposeAndStore_not_array [OF env cfg na])
      (simp add: emit_def persisted_simps sampleService_def)
qed

text \<open>
  Claim C3 says that the resources whose persisted decisions could not be read are put
  to the user. They are not. With \<open>["web", 7]\<close> persisted, the entry 7 is logged and
  \<open>web\<close> is exposed; with the string \<open>"web"\<close> persisted in place of an array, the setting
  is logged and nothing is exposed. In both cases the call succeeds and its trace holds
  no prompt.
\<close>

theorem malformed_entries_not_reselected:
  "fst (readManifest obliging (persisted (CfgArray [CfgString ''web'', CfgNumber 7])) sampleService) =
     Return (exposeAll {''web''} sampleManifest) \<and>
   journal (snd (readManifest obliging (persisted (CfgArray [CfgString ''web'', CfgNumber 7]))
                   sampleService)) =
     [Discover (Path sampleService), EnvGetValue, LogNotString ''app'' 1] \<and>
   fst (readManifest obliging (persisted (CfgString ''web'')) sampleService) =
     Return sampleManifest \<and>
   journal (snd (readManifest obliging (persisted (CfgString ''web'')) sampleService)) =
     [Discover (Path sampleService), EnvGetValue, LogNotArray ''app'']"
  by (simp add: obliging_persisted_array obliging_persisted_other isArray_def)

text \<open>
  Claim C3, amended. Take a call that runs the discovery, gets the environment and finds
  a value under the key. A value that is not an array is logged and ignored as a whole:
  the manifest is returned and cached as discovered. In an array every entry that is not
  a string is logged with its index and skipped, and the entries that are strings, when
  they name resources of the manifest, are applied: the manifest returned and cached has
  the bindings of exactly these resources marked. In neither case does the call fail or
  prompt. (What an entry naming no resource of the manifest does is left open: it depends
  on the declaration of the manifest, \<open>nilResourcePanics\<close>.)
\<close>

theorem malformed_entries_skipped:
  assumes "cache s (Path svc) = None"
    and "ManifestFromAppHost c (Path svc) = Inr m"
    and "lazyEnv_GetValue c = None"
    and "envConfig s (exposedServicesKey (Name svc)) = Some v"
  shows
    "(\<not> isArray v \<longrightarrow>
        readManifest c s svc =
          (Return m,
           s\<lparr>cache := (cache s)(Path svc \<mapsto> m),
             journal := journal s @ [Discover (Path svc), EnvGetValue, LogNotArray (Name svc)]\<rparr>)) \<and>
     (v = CfgArray vs \<and> (nilResourcePanics c \<longrightarrow> set (stringEntries vs) \<subseteq> dom (Resources m)) \<longrightarrow>
        readManifest c s svc =
          (Return (exposeAll (set (stringEntries vs)) m),
           s\<lparr>cache := (cache s)(Path svc \<mapsto> exposeAll (set (stringEntries vs)) m),
             journal := journal s @ [Discover (Path svc), EnvGetValue]
                          @ notStringLogs (Name svc) 0 vs\<rparr>))"
proof (intro conjI impI)
  let ?s1 = "emit (Discover (Path svc)) s"
  have cfg: "envConfig ?s1 (exposedServicesKey (Name svc)) = Some v"
    using assms(4) by (simp add: emit_def)
  {
    assume na: "\<not> isArray v"
    show "readManifest c s svc =
          (Return m,
           s\<lparr>cache := (cache s)(Path svc \<mapsto> m),
             journal := journal s @ [Discover (Path svc), EnvGetValue, LogNotArray (Name svc)]\<rparr>)"
      by (simp add: readManifest_miss [OF assms(1,2)] exposeAndStore_not_array [OF assms(3) cfg na])
        (simp add: emit_def)
  next
    assume a: "v = CfgArray vs \<and>
      (nilResourcePanics c \<longrightarrow> set (stringEntries vs) \<subseteq> dom (Resources m))"
    then have sel: "exposeSelected (nilResourcePanics c) (stringEntries vs) m =
                      Some (exposeAll (set (stringEntries vs)) m)"
      by (simp add: exposeSelected_ok)
    from a cfg have cfg': "envConfig ?s1 (exposedServicesKey (Name svc)) = Some (CfgArray vs)"
      by simp
    show "readManifest c s svc =
          (Return (exposeAll (set (stringEntries vs)) m),
           s\<lparr>cache := (cache s)(Path svc \<mapsto> exposeAll (set (stringEntries vs)) m),
             journal := journal s @ [Discover (Path svc), EnvGetValue]
                          @ notStringLogs (Name svc) 0 vs\<rparr>)"
      by (simp add: readManifest_miss [OF assms(1,2)] exposeAndStore_array [OF assms(3) cfg' sel])
        (simp add: emit_def)
  }
qed

text \<open>
  A boolean under the key, and an array of null, \<open>"api"\<close> and an empty array.
\<close>

theorem malformed_entries_skipped_witness:
  "readManifest obliging (persisted (CfgBool True)) sampleService =
     (Return sampleManifest,
      (persisted (CfgBool True))
        \<lparr>cache := [Path sampleService \<mapsto> sampleManifest],
         journal := [Discover (Path sampleService), EnvGetValue, LogNotArray ''app'']\<rparr>) \<and>
   readManifest obliging (persisted (CfgArray [CfgNull, CfgString ''api'', CfgArray []]))
       sampleService =
     (Return (exposeAll {''api''} sampleManifest),
      (persisted (CfgArray [CfgNull, CfgString ''api'', CfgArray []]))
        \<lparr>cache := [Path sampleService \<mapsto> exposeAll {''api''} sampleManifest],
         journal := [Discover (Path sampleService), EnvGetValue, LogNotString ''app'' 0,
                     LogNotString ''app'' 2]\<rparr>)"
proof -
  have n1: "\<not> isArray (CfgBool True)" by (simp add: isArray_def)
  have n2: "nilResourcePanics obliging \<longrightarrow>
              set (stringEntries [CfgNull, CfgString ''api'', CfgArray []])
                \<subseteq> dom (Resources sampleManifest)"
    by (simp add: sampleManifest_dom)
  from malformed_entries_skipped
    [where s = "persisted (CfgBool True)" and svc = sampleService and c = obliging
       and m = sampleManifest and v = "CfgBool True"] n1
  have p1: "readManifest obliging (persisted (CfgBool True)) sampleService =
     (Return sampleManifest,
      (persisted (CfgBool True))
        \<lparr>cache := [Path sampleService \<mapsto> sampleManifest],
         journal := [Discover (Path sampleService), EnvGetValue, LogNotArray ''app'']\<rparr>)"
    by (simp add: persisted_simps obliging_simps) (simp add: sampleService_def)
  from malformed_entries_skipped
    [where s = "persisted (CfgArray [CfgNull, CfgString ''api'', CfgArray []])"
       and svc = sampleService and c = obliging and m = sampleManifest
       and v = "CfgArray [CfgNull, CfgString ''api'', CfgArray []]"
       and vs = "[CfgNull, CfgString ''api'', CfgArray []]"] n2
  have p2: "readManifest obliging (persisted (CfgArray [CfgNull, CfgString ''api'', CfgArray []]))
       sampleService =
     (Return (exposeAll {''api''} sampleManifest),
      (persisted (CfgArray [CfgNull, CfgString ''api'', CfgArray []]))
        \<lparr>cache := [Path sampleService \<mapsto> exposeAll {''api''} sampleManifest],
         journal := [Discover (Path sampleService), EnvGetValue, LogNotString ''app'' 0,
                     LogNotString ''app'' 2]\<rparr>)"
    by (simp add: persisted_simps obliging_simps) (simp add: sampleService_def)
  from p1 p2 show ?thesis by blast
qed

subsection \<open>Failing to persist the selection\<close>

text \<open>The store refuses the write; the environment cannot be saved; it cannot be loaded.\<close>

definition readOnlyConfig :: collaborators where
  "readOnlyConfig = obliging\<lparr>Config_Set := (\<lambda>_ _. Some (Error ''config is read-only''))\<rparr>"

definition diskFull :: collaborators where
  "diskFull = obliging\<lparr>envManager_Save := (\<lambda>_. Some (Error ''no space left on device''))\<rparr>"

definition noEnvironment :: collaborators where
  "noEnvironment = obliging\<lparr>lazyEnv_GetValue := Some (Error ''environment not found'')\<rparr>"

lemma selectAndPersist_cases:
  assumes "SelectPublicServices c m = Inr exposed"
    and "nilResourcePanics c \<longrightarrow> set exposed \<subseteq> dom (Resources m)"
  shows
    "(Config_Set c (exposedServicesKey (Name svc)) exposed = Some e \<longrightarrow>
        fst (selectAndPersist c svc m s) = ReturnErr e \<and>
        cache (snd (selectAndPersist c svc m s)) = cache s) \<and>
     (Config_Set c (exposedServicesKey (Name svc)) exposed = None \<and>
      lazyEnvManager_GetValue c = Some e \<longrightarrow>
        fst (selectAndPersist c svc m s) = ReturnErr e \<and>
        cache (snd (selectAndPersist c svc m s)) = cache s) \<and>
     (Config_Set c (exposedServicesKey (Name svc)) exposed = None \<and>
      lazyEnvManager_GetValue c = None \<and>
      envManager_Save c ((envConfig s)(exposedServicesKey (Name svc) \<mapsto> CfgStrings exposed)) = Some e \<longrightarrow>
        fst (selectAndPersist c svc m s) = ReturnErr e \<and>
        cache (snd (selectAndPersist c svc m s)) = cache s)"
proof -
  have sel: "exposeSelected (nilResourcePanics c) exposed m = Some (exposeAll (set exposed) m)"
    using assms(2) by (simp add: exposeSelected_ok)
  show ?thesis
    by (simp add: selectAndPersist_set_error [OF assms(1) sel]
        selectAndPersist_manager_error [OF assms(1) sel]
        selectAndPersist_save_error [OF assms(1) sel])
qed

text \<open>
  Claim C4. Take a call that runs the discovery, gets the environment, finds no value
  under the key and has the user select names of resources of the manifest. If
  \<open>Config.Set\<close> returns an error, or it succeeds and \<open>envManager.Save\<close> returns an error,
  then \<open>readManifest\<close> returns that error and the cache is as it was before the call;
  \<open>SynthAllInfrastructure\<close> returns the error, wrapped, and no file tree.
\<close>

theorem persist_failure_returned:
  assumes "cache s (Path svc) = None"
    and "ManifestFromAppHost c (Path svc) = Inr m"
    and "lazyEnv_GetValue c = None"
    and "envConfig s (exposedServicesKey (Name svc)) = None"
    and "SelectPublicServices c m = Inr exposed"
    and "nilResourcePanics c \<longrightarrow> set exposed \<subseteq> dom (Resources m)"
    and "Config_Set c (exposedServicesKey (Name svc)) exposed = Some e \<or>
         Config_Set c (exposedServicesKey (Name svc)) exposed = None \<and>
         lazyEnvManager_GetValue c = None \<and>
         envManager_Save c ((envConfig s)(exposedServicesKey (Name svc) \<mapsto> CfgStrings exposed)) =
           Some e"
  shows "fst (readManifest c s svc) = ReturnErr e \<and>
         cache (snd (readManifest c s svc)) = cache s \<and>
         fst (SynthAllInfrastructure c s p svc) = ReturnErr (Wrap ''generating apphost manifest'' e) \<and>
         cache (snd (SynthAllInfrastructure c s p svc)) = cache s"
proof -
  let ?s1 = "emit EnvGetValue (emit (Discover (Path svc)) s)"
  have rm: "readManifest c s svc = selectAndPersist c svc m ?s1"
    using assms(4)
    by (simp add: readManifest_miss [OF assms(1,2)] exposeAndStore_absent [OF assms(3)] emit_def)
  have s1: "envConfig ?s1 = envConfig s" "cache ?s1 = cache s" by (simp_all add: emit_def)
  from selectAndPersist_cases [OF assms(5,6), of svc e ?s1] assms(7)
  have r: "fst (readManifest c s svc) = ReturnErr e \<and> cache (snd (readManifest c s svc)) = cache s"
    unfolding rm s1 by blast
  then show ?thesis
    by (simp add: SynthAllInfrastructure_error)
qed

lemma readOnlyConfig_simps:
  "ManifestFromAppHost readOnlyConfig p = Inr sampleManifest"
  "lazyEnv_GetValue readOnlyConfig = None"
  "SelectPublicServices readOnlyConfig m = Inr [''web'']"
  "Config_Set readOnlyConfig k ns = Some (Error ''config is read-only'')"
  "nilResourcePanics readOnlyConfig = True"
  by (simp_all add: readOnlyConfig_def obliging_def)

lemma diskFull_simps:
  "ManifestFromAppHost diskFull p = Inr sampleManifest"
  "lazyEnv_GetValue diskFull = None"
  "SelectPublicServices diskFull m = Inr [''web'']"
  "Config_Set diskFull k ns = None"
  "lazyEnvManager_GetValue diskFull = None"
  "envManager_Save diskFull cfg = Some (Error ''no space left on device'')"
  "nilResourcePanics diskFull = True"
  by (simp_all add: diskFull_def obliging_def)

text \<open>A store that refuses the write, and a disk that is full.\<close>

theorem persist_failure_returned_witness:
  "fst (readManifest readOnlyConfig fresh sampleService) = ReturnErr (Error ''config is read-only'') \<and>
   cache (snd (readManifest readOnlyConfig fresh sampleService)) = cache fresh \<and>
   fst (SynthAllInfrastructure readOnlyConfig fresh sampleProject sampleService) =
     ReturnErr (Wrap ''generating apphost manifest'' (Error ''config is read-only'')) \<and>
   fst (readManifest diskFull fresh sampleService) = ReturnErr (Error ''no space left on device'') \<and>
   cache (snd (readManifest diskFull fresh sampleService)) = cache fresh \<and>
   fst (SynthAllInfrastructure diskFull fresh sampleProject sampleService) =
     ReturnErr (Wrap ''generating apphost manifest'' (Error ''no space left on device''))"
proof -
  have a: "fst (readManifest readOnlyConfig fresh sampleService) = ReturnErr (Error ''config is read-only'') \<and>
         cache (snd (readManifest readOnlyConfig fresh sampleService)) = cache fresh \<and>
         fst (SynthAllInfrastructure readOnlyConfig fresh sampleProject sampleService) =
           ReturnErr (Wrap ''generating apphost manifest'' (Error ''config is read-only'')) \<and>
         cache (snd (SynthAllInfrastructure readOnlyConfig fresh sampleProject sampleService)) = cache fresh"
    by (rule persist_failure_returned [where m = sampleManifest and exposed = "[''web'']"])
      (simp_all add: readOnlyConfig_simps fresh_simps sampleManifest_dom)
  have b: "fst (readManifest diskFull fresh sampleService) = ReturnErr (Error ''no space left on device'') \<and>
         cache (snd (readManifest diskFull fresh sampleService)) = cache fresh \<and>
         fst (SynthAllInfrastructure diskFull fresh sampleProject sampleService) =
           ReturnErr (Wrap ''generating apphost manifest'' (Error ''no space left on device'')) \<and>
         cache (snd (SynthAllInfrastructure diskFull fresh sampleProject sampleService)) = cache fresh"
    by (rule persist_failure_returned [where m = sampleManifest and exposed = "[''web'']"])
      (simp_all add: diskFull_simps fresh_simps sampleManifest_dom)
  from a b show ?thesis by blast
qed

subsection \<open>Which failures are returned\<close>

lemma noEnvironment_simps:
  "ManifestFromAppHost noEnvironment p = Inr sampleManifest"
  "lazyEnv_GetValue noEnvironment = Some (Error ''environment not found'')"
  by (simp_all add: noEnvironment_def obliging_def)

definition sampleTree :: memfs where
  "sampleTree =
     [[''infra''] \<mapsto> DirNode 448,
      [''infra'', ''main.bicep''] \<mapsto> FileNode ''targetScope'' 0,
      [''Web''] \<mapsto> DirNode 448,
      [''Web'', ''manifests''] \<mapsto> DirNode 448,
      [''Web'', ''manifests'', ''containerApp.tmpl.yaml''] \<mapsto> FileNode ''name: web'' 384,
      [''Api''] \<mapsto> DirNode 448,
      [''Api'', ''manifests''] \<mapsto> DirNode 448,
      [''Api'', ''manifests'', ''containerApp.tmpl.yaml''] \<mapsto> FileNode ''name: api'' 384]"

lemma synthFiles_noEnvironment:
  "synthFiles noEnvironment sampleProject sampleManifest = Return sampleTree"
  by (simp add: synthFiles_def noEnvironment_def obliging_def MkdirAll_def WriteFile_def
      ValidPath_def getDir_def writeProjectManifest_def manifestPath_def sampleRel_def
      sampleProject_def sampleTree_def)

lemma readManifest_noEnvironment:
  "readManifest noEnvironment fresh sampleService =
     (Return sampleManifest,
      fresh\<lparr>cache := [Path sampleService \<mapsto> sampleManifest],
            journal := [Discover (Path sampleService), EnvGetValue,
                        LogEnvError (Error ''environment not found'')]\<rparr>)"
  by (simp add: readManifest_miss [where m = sampleManifest] fresh_simps noEnvironment_simps
      exposeAndStore_env_error)
    (simp add: emit_def fresh_simps)

text \<open>
  Claim C6 says that no failure but a malformed persisted entry is logged and passed
  over. The failure to load the environment is: \<open>readManifest\<close> logs it, returns the
  manifest as discovered and caches it, and \<open>SynthAllInfrastructure\<close> returns a file
  tree.
\<close>

theorem environment_failure_only_logged:
  "fst (readManifest noEnvironment fresh sampleService) = Return sampleManifest \<and>
   journal (snd (readManifest noEnvironment fresh sampleService)) =
     [Discover (Path sampleService), EnvGetValue, LogEnvError (Error ''environment not found'')] \<and>
   cache (snd (readManifest noEnvironment fresh sampleService)) (Path sampleService) =
     Some sampleManifest \<and>
   fst (SynthAllInfrastructure noEnvironment fresh sampleProject sampleService) = Return sampleTree"
  by (simp add: readManifest_noEnvironment SynthAllInfrastructure_def synthFiles_noEnvironment
      fresh_simps)

text \<open>
  Claim C6, amended. In a call of \<open>readManifest\<close> that misses the cache, the errors of
  the discovery, of the selection (wrapped), of \<open>Config.Set\<close>, of the environment
  manager and of \<open>envManager.Save\<close> are returned to the caller, and
  \<open>SynthAllInfrastructure\<close> returns every error of \<open>readManifest\<close>, wrapped. The
  failure to load the environment is not returned: it is logged, and the manifest is
  returned and cached as discovered. (The other condition that is logged and passed over
  is malformed persisted data, claim C3.)
\<close>

theorem fatal_conditions_of_readManifest:
  assumes "cache s (Path svc) = None"
  shows
    "(ManifestFromAppHost c (Path svc) = Inl e \<longrightarrow> fst (readManifest c s svc) = ReturnErr e) \<and>
     (ManifestFromAppHost c (Path svc) = Inr m \<longrightarrow>
        (lazyEnv_GetValue c = Some e \<longrightarrow>
           readManifest c s svc =
             (Return m,
              s\<lparr>cache := (cache s)(Path svc \<mapsto> m),
                journal := journal s @ [Discover (Path svc), EnvGetValue, LogEnvError e]\<rparr>)) \<and>
        (lazyEnv_GetValue c = None \<and> envConfig s (exposedServicesKey (Name svc)) = None \<longrightarrow>
           (SelectPublicServices c m = Inl e \<longrightarrow>
              fst (readManifest c s svc) = ReturnErr (Wrap ''selecting public services'' e)) \<and>
           (SelectPublicServices c m = Inr exposed \<and>
            (nilResourcePanics c \<longrightarrow> set exposed \<subseteq> dom (Resources m)) \<longrightarrow>
              (Config_Set c (exposedServicesKey (Name svc)) exposed = Some e \<longrightarrow>
                 fst (readManifest c s svc) = ReturnErr e) \<and>
              (Config_Set c (exposedServicesKey (Name svc)) exposed = None \<and>
               lazyEnvManager_GetValue c = Some e \<longrightarrow>
                 fst (readManifest c s svc) = ReturnErr e) \<and>
              (Config_Set c (exposedServicesKey (Name svc)) exposed = None \<and>
               lazyEnvManager_GetValue c = None \<and>
               envManager_Save c
                 ((envConfig s)(exposedServicesKey (Name svc) \<mapsto> CfgStrings exposed)) = Some e \<longrightarrow>
                 fst (readManifest c s svc) = ReturnErr e)))) \<and>
     (fst (readManifest c s svc) = ReturnErr e \<longrightarrow>
        fst (SynthAllInfrastructure c s p svc) =
          ReturnErr (Wrap ''generating apphost manifest'' e))"
proof (intro conjI impI)
  assume "ManifestFromAppHost c (Path svc) = Inl e"
  then show "fst (readManifest c s svc) = ReturnErr e"
    by (simp add: readManifest_discovery_error [OF assms])
next
  assume "fst (readManifest c s svc) = ReturnErr e"
  then show "fst (SynthAllInfrastructure c s p svc) =
          ReturnErr (Wrap ''generating apphost manifest'' e)"
    by (simp add: SynthAllInfrastructure_error)
next
  assume m: "ManifestFromAppHost c (Path svc) = Inr m"
  {
    assume "lazyEnv_GetValue c = Some e"
    then show "readManifest c s svc =
             (Return m,
              s\<lparr>cache := (cache s)(Path svc \<mapsto> m),
                journal := journal s @ [Discover (Path svc), EnvGetValue, LogEnvError e]\<rparr>)"
      by (simp add: readManifest_miss [OF assms m] exposeAndStore_env_error) (simp add: emit_def)
  }
  assume env: "lazyEnv_GetValue c = None \<and> envConfig s (exposedServicesKey (Name svc)) = None"
  let ?s1 = "emit EnvGetValue (emit (Discover (Path svc)) s)"
  have rm: "readManifest c s svc = selectAndPersist c svc m ?s1"
    using env by (simp add: readManifest_miss [OF assms m] exposeAndStore_absent emit_def)
  have s1: "envConfig ?s1 = envConfig s" by (simp add: emit_def)
  {
    assume "SelectPublicServices c m = Inl e"
    then show "fst (readManifest c s svc) = ReturnErr (Wrap ''selecting public services'' e)"
      by (simp add: rm selectAndPersist_select_error)
  }
  assume sel: "SelectPublicServices c m = Inr exposed \<and>
            (nilResourcePanics c \<longrightarrow> set exposed \<subseteq> dom (Resources m))"
  note cases = selectAndPersist_cases [of c m exposed svc e ?s1, unfolded s1, folded rm]
  {
    assume "Config_Set c (exposedServicesKey (Name svc)) exposed = Some e"
    with cases sel show "fst (readManifest c s svc) = ReturnErr e" by blast
  }
  {
    assume "Config_Set c (exposedServicesKey (Name svc)) exposed = None \<and>
               lazyEnvManager_GetValue c = Some e"
    with cases sel show "fst (readManifest c s svc) = ReturnErr e" by blast
  }
  {
    assume "Config_Set c (exposedServicesKey (Name svc)) exposed = None \<and>
               lazyEnvManager_GetValue c = None \<and>
               envManager_Save c
                 ((envConfig s)(exposedServicesKey (Name svc) \<mapsto> CfgStrings exposed)) = Some e"
    with cases sel show "fst (readManifest c s svc) = ReturnErr e" by blast
  }
qed

text \<open>
  A failing app host, an environment that cannot be loaded, a store that refuses the
  write and a disk that is full.
\<close>

theorem fatal_conditions_of_readManifest_witness:
  "fst (readManifest noManifest fresh sampleService) = ReturnErr (Error ''dotnet run failed'') \<and>
   fst (SynthAllInfrastructure noManifest fresh sampleProject sampleService) =
     ReturnErr (Wrap ''generating apphost manifest'' (Error ''dotnet run failed'')) \<and>
   readManifest noEnvironment fresh sampleService =
     (Return sampleManifest,
      fresh\<lparr>cache := [Path sampleService \<mapsto> sampleManifest],
            journal := [Discover (Path sampleService), EnvGetValue,
                        LogEnvError (Error ''environment not found'')]\<rparr>) \<and>
   fst (readManifest readOnlyConfig fresh sampleService) = ReturnErr (Error ''config is read-only'') \<and>
   fst (readManifest diskFull fresh sampleService) = ReturnErr (Error ''no space left on device'')"
proof -
  have miss: "cache fresh (Path sampleService) = None" by (simp add: fresh_simps)
  note T = fatal_conditions_of_readManifest [OF miss]
  have d: "ManifestFromAppHost noManifest (Path sampleService) = Inl (Error ''dotnet run failed'')"
    by (simp add: noManifest_def)
  from T [where c = noManifest and e = "Error ''dotnet run failed''"] d
  have p1: "fst (readManifest noManifest fresh sampleService) = ReturnErr (Error ''dotnet run failed'')"
    by blast
  with T [where c = noManifest and e = "Error ''dotnet run failed''" and p = sampleProject]
  have p2: "fst (SynthAllInfrastructure noManifest fresh sampleProject sampleService) =
     ReturnErr (Wrap ''generating apphost manifest'' (Error ''dotnet run failed''))"
    by blast
  from T [where c = noEnvironment and e = "Error ''environment not found''" and m = sampleManifest]
  have p3: "readManifest noEnvironment fresh sampleService =
     (Return sampleManifest,
      fresh\<lparr>cache := [Path sampleService \<mapsto> sampleManifest],
            journal := [Discover (Path sampleService), EnvGetValue,
                        LogEnvError (Error ''environment not found'')]\<rparr>)"
    by (simp add: noEnvironment_simps fresh_simps)
  from T [where c = readOnlyConfig and e = "Error ''config is read-only''" and m = sampleManifest
      and exposed = "[''web'']"]
  have p4: "fst (readManifest readOnlyConfig fresh sampleService) =
              ReturnErr (Error ''config is read-only'')"
    by (simp add: readOnlyConfig_simps fresh_simps sampleManifest_dom)
  from T [where c = diskFull and e = "Error ''no space left on device''" and m = sampleManifest
      and exposed = "[''web'']"]
  have p5: "fst (readManifest diskFull fresh sampleService) =
              ReturnErr (Error ''no space left on device'')"
    by (simp add: diskFull_simps fresh_simps sampleManifest_dom)
  from p1 p2 p3 p4 p5 show ?thesis by blast
qed

subsection \<open>Exposure only widens\<close>

text \<open>
  The names whose exposure a call of \<open>readManifest\<close> decides once it has the manifest:
  the strings of the persisted array, or the names the user selects; none when the
  environment is not available, or the persisted value is no array.
\<close>

definition decisionSet :: "collaborators \<Rightarrow> importer \<Rightarrow> ServiceConfig \<Rightarrow> Manifest \<Rightarrow> string set" where
  "decisionSet c s svc m =
     (case lazyEnv_GetValue c of
        Some _ \<Rightarrow> {}
      | None \<Rightarrow>
          (case envConfig s (exposedServicesKey (Name svc)) of
             Some (CfgArray vs) \<Rightarrow> set (stringEntries vs)
           | Some _ \<Rightarrow> {}
           | None \<Rightarrow>
               (case SelectPublicServices c m of
                  Inr exposed \<Rightarrow> set exposed
                | Inl _ \<Rightarrow> {})))"

lemma decisionSet_emit: "decisionSet c (emit e s) svc m = decisionSet c s svc m"
  by (simp add: decisionSet_def emit_def split: option.splits)

lemma selectAndPersist_Return:
  assumes "selectAndPersist c svc m s = (Return m', s')"
  shows "\<exists>exposed. SelectPublicServices c m = Inr exposed \<and> m' = exposeAll (set exposed) m"
proof (cases "SelectPublicServices c m")
  case (Inl e)
  with assms show ?thesis by (simp add: selectAndPersist_select_error)
next
  case (Inr exposed)
  show ?thesis
  proof (cases "exposeSelected (nilResourcePanics c) exposed m")
    case None
    with Inr assms show ?thesis by (simp add: selectAndPersist_panic)
  next
    case (Some m1)
    then have m1: "m1 = exposeAll (set exposed) m"
      by (simp add: exposeSelected_eq split: if_splits)
    from assms Inr Some have "m' = m1"
      by (auto simp: selectAndPersist_def configSet_def storeManifest_def Let_def split: option.splits)
    with m1 Inr show ?thesis by simp
  qed
qed

lemma applyPersisted_Return:
  assumes "applyPersisted c svc v m s = (Return m', s')"
  shows "m' = exposeAll (case v of CfgArray vs \<Rightarrow> set (stringEntries vs) | _ \<Rightarrow> {}) m"
proof (cases "isArray v")
  case False
  with assms show ?thesis
    by (cases v) (auto simp: applyPersisted_def storeManifest_def isArray_def exposeAll_empty)
next
  case True
  then obtain vs where v: "v = CfgArray vs" by (cases v) (simp_all add: isArray_def)
  show ?thesis
  proof (cases "exposeSelected (nilResourcePanics c) (stringEntries vs) m")
    case None
    from applyExposedServices_None [OF None, of "Name svc" 0 s] assms v show ?thesis
      by (auto simp: applyPersisted_def split: prod.splits option.splits)
  next
    case (Some m1)
    then have m1: "m1 = exposeAll (set (stringEntries vs)) m"
      by (simp add: exposeSelected_eq split: if_splits)
    from applyExposedServices_Some [OF Some, of "Name svc" 0 s] assms v have "m' = m1"
      by (simp add: applyPersisted_def storeManifest_def)
    with m1 v show ?thesis by simp
  qed
qed

lemma exposeAndStore_Return:
  assumes "exposeAndStore c svc m s = (Return m', s')"
  shows "m' = exposeAll (decisionSet c s svc m) m"
proof (cases "lazyEnv_GetValue c")
  case (Some e)
  with assms show ?thesis
    by (simp add: exposeAndStore_env_error decisionSet_def exposeAll_empty)
next
  case None
  show ?thesis
  proof (cases "envConfig s (exposedServicesKey (Name svc))")
    case absent: None
    with None assms have "selectAndPersist c svc m (emit EnvGetValue s) = (Return m', s')"
      by (simp add: exposeAndStore_absent)
    from selectAndPersist_Return [OF this] None absent show ?thesis
      by (auto simp: decisionSet_def)
  next
    case (Some v)
    with None assms have "applyPersisted c svc v m (emit EnvGetValue s) = (Return m', s')"
      by (simp add: exposeAndStore_def emit_def)
    from applyPersisted_Return [OF this] None Some show ?thesis
      by (cases v) (simp_all add: decisionSet_def)
  qed
qed

text \<open>
  Claim C10. When a call of \<open>readManifest\<close> that ran the discovery returns a manifest,
  that manifest has the resources of the discovered one and each resource has the
  bindings it had. A binding that was external is external; every binding of a resource
  named in the decision set is the discovered binding with \<open>External\<close> set, and every
  binding of a resource that is not named is the discovered binding.
\<close>

theorem exposure_only_widens:
  assumes "cache s (Path svc) = None"
    and "ManifestFromAppHost c (Path svc) = Inr m"
    and "readManifest c s svc = (Return m', s')"
  shows
    "(\<forall>n. (Resources m' n = None) = (Resources m n = None)) \<and>
     (\<forall>n r. Resources m n = Some r \<longrightarrow>
        (\<exists>r'. Resources m' n = Some r' \<and>
           (\<forall>k. (Bindings r' k = None) = (Bindings r k = None)) \<and>
           (\<forall>k b. Bindings r k = Some b \<longrightarrow>
              (\<exists>b'. Bindings r' k = Some b' \<and>
                    (External b \<longrightarrow> External b') \<and>
                    (n \<in> decisionSet c s svc m \<longrightarrow> b' = b\<lparr>External := True\<rparr>) \<and>
                    (n \<notin> decisionSet c s svc m \<longrightarrow> b' = b)))))"
proof -
  have "exposeAndStore c svc m (emit (Discover (Path svc)) s) = (Return m', s')"
    using assms by (simp add: readManifest_miss)
  from exposeAndStore_Return [OF this]
  have m': "m' = exposeAll (decisionSet c s svc m) m"
    by (simp add: decisionSet_emit)
  show ?thesis
    unfolding m'
    by (auto simp: Resources_exposeAll Bindings_setExternal)
qed

text \<open>
  The user selects \<open>web\<close>: both bindings of \<open>web\<close> are external, that of \<open>api\<close> is as
  discovered.
\<close>

theorem exposure_only_widens_witness:
  "(case fst (readManifest obliging fresh sampleService) of
      Return m' \<Rightarrow>
        (case (Resources m' ''web'', Resources m' ''api'') of
           (Some web, Some api) \<Rightarrow>
             Bindings web ''http'' = Some (httpBinding\<lparr>External := True\<rparr>) \<and>
             Bindings web ''grpc'' = Some (grpcBinding\<lparr>External := True\<rparr>) \<and>
             Bindings api ''http'' = Some httpBinding
         | _ \<Rightarrow> False)
    | _ \<Rightarrow> False)"
proof -
  have miss: "cache fresh (Path sampleService) = None" by (simp add: fresh_simps)
  have disc: "ManifestFromAppHost obliging (Path sampleService) = Inr sampleManifest"
    by (simp add: obliging_simps)
  have D: "decisionSet obliging fresh sampleService sampleManifest = {''web''}"
    by (simp add: decisionSet_def obliging_simps fresh_simps)
  obtain m' s' where rm: "readManifest obliging fresh sampleService = (Return m', s')"
    using obliging_first by blast
  note T = exposure_only_widens [OF miss disc rm, unfolded D]
  have w: "Resources sampleManifest ''web'' = Some webResource"
    and a: "Resources sampleManifest ''api'' = Some apiResource"
    by (simp_all add: sampleManifest_def)
  from T w obtain web where web: "Resources m' ''web'' = Some web"
    and wb: "\<forall>k b. Bindings webResource k = Some b \<longrightarrow>
              (\<exists>b'. Bindings web k = Some b' \<and> (External b \<longrightarrow> External b') \<and>
                    (''web'' \<in> {''web''} \<longrightarrow> b' = b\<lparr>External := True\<rparr>) \<and>
                    (''web'' \<notin> {''web''} \<longrightarrow> b' = b))"
    by blast
  from T a obtain api where api: "Resources m' ''api'' = Some api"
    and ab: "\<forall>k b. Bindings apiResource k = Some b \<longrightarrow>
              (\<exists>b'. Bindings api k = Some b' \<and> (External b \<longrightarrow> External b') \<and>
                    (''api'' \<in> {''web''} \<longrightarrow> b' = b\<lparr>External := True\<rparr>) \<and>
                    (''api'' \<notin> {''web''} \<longrightarrow> b' = b))"
    by blast
  have "Bindings webResource ''http'' = Some httpBinding"
    "Bindings webResource ''grpc'' = Some grpcBinding"
    "Bindings apiResource ''http'' = Some httpBinding"
    by (simp_all add: webResource_def apiResource_def)
  with wb ab have "Bindings web ''http'' = Some (httpBinding\<lparr>External := True\<rparr>)"
    "Bindings web ''grpc'' = Some (grpcBinding\<lparr>External := True\<rparr>)"
    "Bindings api ''http'' = Some httpBinding"
    by auto
  with rm web api show ?thesis by simp
qed

subsection \<open>The manifest cache\<close>

lemma perform_keeps_manifest:
  assumes "cache s p = Some m"
  shows "cache (perform x s) p = Some m \<and> discoveries p (perform x s) = discoveries p s"
proof (cases x)
  case (Pair c k)
  have rm: "cache (snd (readManifest c s svc)) p = Some m \<and>
            discoveries p (snd (readManifest c s svc)) = discoveries p s" for svc
  proof (cases "Path svc = p")
    case True
    with assms show ?thesis by (simp add: readManifest_hit)
  next
    case False
    from readManifest_cache [of c s svc "fst (readManifest c s svc)" "snd (readManifest c s svc)"]
      readManifest_discoveries [of c s svc "fst (readManifest c s svc)"
        "snd (readManifest c s svc)" p]
      False assms
    show ?thesis
      by (auto split: outcome.splits)
  qed
  show ?thesis
  proof (cases k)
    case (CallCanImport q)
    with assms Pair show ?thesis by (simp add: CanImport_cache)
  next
    case (CallReadManifest svc)
    with Pair rm [of svc] show ?thesis by simp
  next
    case (CallSynthAllInfrastructure prj svc)
    with Pair rm [of svc] show ?thesis by (simp add: SynthAllInfrastructure_snd)
  qed
qed

lemma runCalls_keeps_manifest:
  "cache s p = Some m \<Longrightarrow>
   cache (runCalls calls s) p = Some m \<and> discoveries p (runCalls calls s) = discoveries p s"
  unfolding runCalls_def
proof (induction calls arbitrary: s)
  case Nil
  then show ?case by simp
next
  case (Cons x calls)
  from perform_keeps_manifest [OF Cons.prems, of x]
  have a: "cache (perform x s) p = Some m" and b: "discoveries p (perform x s) = discoveries p s"
    by simp_all
  from Cons.IH [OF a] b show ?case by simp
qed

lemma readManifest_Return_miss:
  assumes "readManifest c s svc = (Return m, s')" and "cache s (Path svc) = None"
  shows "\<exists>m0. ManifestFromAppHost c (Path svc) = Inr m0 \<and>
              m = exposeAll (decisionSet c s svc m0) m0"
proof (cases "ManifestFromAppHost c (Path svc)")
  case (Inl e)
  with assms show ?thesis by (simp add: readManifest_discovery_error)
next
  case (Inr m0)
  with assms have "exposeAndStore c svc m0 (emit (Discover (Path svc)) s) = (Return m, s')"
    by (simp add: readManifest_miss)
  from exposeAndStore_Return [OF this] Inr show ?thesis
    by (simp add: decisionSet_emit)
qed

text \<open>
  Claim C1 says that a failed discovery is stored and answers later calls. It is not:
  after the app host failed, the cache has no entry for the path, the next call runs the
  discovery again, and a call that finds the app host working returns a manifest.
\<close>

theorem readManifest_error_not_cached:
  "fst (readManifest noManifest fresh sampleService) = ReturnErr (Error ''dotnet run failed'') \<and>
   cache (snd (readManifest noManifest fresh sampleService)) (Path sampleService) = None \<and>
   journal (snd (readManifest noManifest (snd (readManifest noManifest fresh sampleService))
                   sampleService)) =
     [Discover (Path sampleService), Discover (Path sampleService)] \<and>
   fst (readManifest obliging (snd (readManifest noManifest fresh sampleService)) sampleService) =
     Return (exposeAll {''web''} sampleManifest)"
proof -
  have fail: "ManifestFromAppHost noManifest p = Inl (Error ''dotnet run failed'')" for p
    by (simp add: noManifest_def)
  have first: "readManifest noManifest fresh sampleService =
                 (ReturnErr (Error ''dotnet run failed''), emit (Discover (Path sampleService)) fresh)"
    by (simp add: readManifest_discovery_error fresh_simps fail)
  have second: "readManifest noManifest (emit (Discover (Path sampleService)) fresh) sampleService =
                 (ReturnErr (Error ''dotnet run failed''),
                  emit (Discover (Path sampleService)) (emit (Discover (Path sampleService)) fresh))"
    by (simp add: readManifest_discovery_error fresh_simps fail emit_def)
  have third: "fst (readManifest obliging (emit (Discover (Path sampleService)) fresh) sampleService) =
                 Return (exposeAll {''web''} sampleManifest)"
    by (simp add: readManifest_miss [where m = sampleManifest] fresh_simps obliging_simps
        exposeAndStore_absent emit_def obliging_select)
  show ?thesis
    by (simp add: first second third) (simp add: emit_def fresh_simps)
qed

text \<open>
  Claim C1, amended. \<open>readManifest\<close> returns the cached manifest when the path has one,
  and then changes nothing, so it asks no collaborator. When the path has none it runs
  the discovery once, and returns the error of a discovery that failed. A manifest it
  returns is stored under the path, the other paths keeping what they had; when it was
  not cached before, it is the manifest that the discovery produced, with the bindings of
  the resources decided on exposed. After any further calls of the importer, whatever
  the collaborators answer during them and then, a call for the same path returns that
  manifest and changes nothing, and the discovery of the path has not run again. An
  error is returned with the cache as it was, the path without an entry, and the next
  call for the path runs the discovery again.
\<close>

theorem readManifest_caches_manifests:
  "(cache s (Path svc) = Some m \<longrightarrow> readManifest c s svc = (Return m, s)) \<and>
   (cache s (Path svc) = None \<and> ManifestFromAppHost c (Path svc) = Inl e \<longrightarrow>
      readManifest c s svc = (ReturnErr e, emit (Discover (Path svc)) s)) \<and>
   discoveries (Path svc) (snd (readManifest c s svc)) =
     discoveries (Path svc) s + (if cache s (Path svc) = None then 1 else 0) \<and>
   (readManifest c s svc = (Return m, s') \<longrightarrow>
      cache s' = (cache s)(Path svc \<mapsto> m) \<and>
      (cache s (Path svc) = None \<longrightarrow>
         (\<exists>m0. ManifestFromAppHost c (Path svc) = Inr m0 \<and>
               m = exposeAll (decisionSet c s svc m0) m0)) \<and>
      (Path svc' = Path svc \<longrightarrow>
         readManifest c' (runCalls calls s') svc' = (Return m, runCalls calls s') \<and>
         discoveries (Path svc) (runCalls calls s') = discoveries (Path svc) s')) \<and>
   (readManifest c s svc = (ReturnErr e, s') \<longrightarrow>
      cache s' = cache s \<and> cache s' (Path svc) = None \<and>
      discoveries (Path svc) (snd (readManifest c' s' svc)) = discoveries (Path svc) s' + 1)"
proof (intro conjI impI)
  assume "cache s (Path svc) = Some m"
  then show "readManifest c s svc = (Return m, s)" by (rule readManifest_hit)
next
  assume "cache s (Path svc) = None \<and> ManifestFromAppHost c (Path svc) = Inl e"
  then show "readManifest c s svc = (ReturnErr e, emit (Discover (Path svc)) s)"
    by (simp add: readManifest_discovery_error)
next
  show "discoveries (Path svc) (snd (readManifest c s svc)) =
          discoveries (Path svc) s + (if cache s (Path svc) = None then 1 else 0)"
    using readManifest_discoveries [of c s svc "fst (readManifest c s svc)"
        "snd (readManifest c s svc)" "Path svc"]
    by simp
next
  assume r: "readManifest c s svc = (Return m, s')"
  from readManifest_cache [OF r] show "cache s' = (cache s)(Path svc \<mapsto> m)" by simp
next
  assume "readManifest c s svc = (Return m, s')" and "cache s (Path svc) = None"
  then show "\<exists>m0. ManifestFromAppHost c (Path svc) = Inr m0 \<and>
                  m = exposeAll (decisionSet c s svc m0) m0"
    by (rule readManifest_Return_miss)
next
  assume r: "readManifest c s svc = (Return m, s')" and p: "Path svc' = Path svc"
  from readManifest_cache [OF r] have "cache s' (Path svc) = Some m" by simp
  from runCalls_keeps_manifest [OF this, of calls]
  have kept: "cache (runCalls calls s') (Path svc') = Some m"
    and quiet: "discoveries (Path svc) (runCalls calls s') = discoveries (Path svc) s'"
    by (simp_all add: p)
  from kept show "readManifest c' (runCalls calls s') svc' = (Return m, runCalls calls s')"
    by (rule readManifest_hit)
  from quiet show "discoveries (Path svc) (runCalls calls s') = discoveries (Path svc) s'" .
next
  assume r: "readManifest c s svc = (ReturnErr e, s')"
  from readManifest_cache [OF r] show same: "cache s' = cache s" by simp
  show none: "cache s' (Path svc) = None"
  proof (cases "cache s (Path svc)")
    case None
    with same show ?thesis by simp
  next
    case (Some m1)
    with r show ?thesis by (simp add: readManifest_hit)
  qed
  from readManifest_discoveries [of c' s' svc "fst (readManifest c' s' svc)"
      "snd (readManifest c' s' svc)" "Path svc"] none
  show "discoveries (Path svc) (snd (readManifest c' s' svc)) = discoveries (Path svc) s' + 1"
    by simp
qed

text \<open>
  The amended claim at work: a manifest read once is answered from the cache after the
  manifest of another app host was read, even when the app host would fail by then, and
  each of the two was discovered once; a first call that fails leaves the cache empty,
  and the next one is the second discovery.
\<close>

theorem readManifest_caches_manifests_witness:
  "fst (readManifest obliging fresh sampleService) = Return (exposeAll {''web''} sampleManifest) \<and>
   readManifest noManifest
       (runCalls [(obliging, CallReadManifest otherService)]
          (snd (readManifest obliging fresh sampleService)))
       sampleService =
     (Return (exposeAll {''web''} sampleManifest),
      runCalls [(obliging, CallReadManifest otherService)]
        (snd (readManifest obliging fresh sampleService))) \<and>
   discoveries (Path sampleService)
     (runCalls [(obliging, CallReadManifest otherService)]
        (snd (readManifest obliging fresh sampleService))) = 1 \<and>
   discoveries (Path otherService)
     (runCalls [(obliging, CallReadManifest otherService)]
        (snd (readManifest obliging fresh sampleService))) = 1 \<and>
   fst (readManifest noManifest fresh sampleService) = ReturnErr (Error ''dotnet run failed'') \<and>
   cache (snd (readManifest noManifest fresh sampleService)) = cache fresh \<and>
   discoveries (Path sampleService)
     (snd (readManifest obliging (snd (readManifest noManifest fresh sampleService))
             sampleService)) = 2"
proof -
  let ?M = "exposeAll {''web''} sampleManifest"
  let ?s1 = "snd (readManifest obliging fresh sampleService)"
  let ?calls = "[(obliging, CallReadManifest otherService)]"
  let ?s2 = "snd (readManifest noManifest fresh sampleService)"
  have f1: "fst (readManifest obliging fresh sampleService) = Return ?M"
    by (simp add: obliging_first)
  then have ok: "readManifest obliging fresh sampleService = (Return ?M, ?s1)"
    by (metis prod.collapse)
  have s1: "cache ?s1 = [Path sampleService \<mapsto> ?M]" "discoveries (Path sampleService) ?s1 = 1"
    "discoveries (Path otherService) ?s1 = 0"
    unfolding obliging_first snd_conv
    by (simp_all add: fresh_simps discoveries_def sampleService_def otherService_def)
  have co: "cache ?s1 (Path otherService) = None"
    unfolding obliging_first snd_conv
    by (simp add: fresh_simps sampleService_def otherService_def)
  have miss: "cache fresh (Path sampleService) = None" by (simp add: fresh_simps)
  have fail: "ManifestFromAppHost noManifest (Path sampleService) = Inl (Error ''dotnet run failed'')"
    by (simp add: noManifest_def)
  note T1 = readManifest_caches_manifests
    [where s = fresh and svc = sampleService and m = ?M and c = obliging and s' = ?s1
       and c' = noManifest and svc' = sampleService and calls = ?calls]
  note T2 = readManifest_caches_manifests
    [where s = fresh and svc = sampleService and c = noManifest and s' = ?s2
       and e = "Error ''dotnet run failed''" and c' = obliging]
  note T3 = readManifest_caches_manifests
    [where s = ?s1 and svc = otherService and c = obliging]
  have c2: "readManifest noManifest (runCalls ?calls ?s1) sampleService =
              (Return ?M, runCalls ?calls ?s1)"
    and c3a: "discoveries (Path sampleService) (runCalls ?calls ?s1) =
                discoveries (Path sampleService) ?s1"
    using T1 ok by blast+
  from c3a s1 have c3: "discoveries (Path sampleService) (runCalls ?calls ?s1) = 1" by simp
  have "discoveries (Path otherService) (snd (readManifest obliging ?s1 otherService)) =
          discoveries (Path otherService) ?s1 +
          (if cache ?s1 (Path otherService) = None then 1 else 0)"
    using T3 by blast
  then have c4: "discoveries (Path otherService) (runCalls ?calls ?s1) = 1"
    by (simp add: s1(3) co runCalls_def)
  have bad: "readManifest noManifest fresh sampleService =
               (ReturnErr (Error ''dotnet run failed''), emit (Discover (Path sampleService)) fresh)"
    using T2 miss fail by blast
  then have f2: "fst (readManifest noManifest fresh sampleService) =
                   ReturnErr (Error ''dotnet run failed'')"
    and s2: "?s2 = emit (Discover (Path sampleService)) fresh"
    by simp_all
  from bad s2 have bad': "readManifest noManifest fresh sampleService =
               (ReturnErr (Error ''dotnet run failed''), ?s2)"
    by simp
  have c5: "cache ?s2 = cache fresh"
    and c6a: "discoveries (Path sampleService) (snd (readManifest obliging ?s2 sampleService)) =
                discoveries (Path sampleService) ?s2 + 1"
    using T2 bad' by blast+
  have "discoveries (Path sampleService) ?s2 = 1"
    by (simp add: s2 emit_def discoveries_def fresh_simps)
  with c6a have c6: "discoveries (Path sampleService)
                       (snd (readManifest obliging ?s2 sampleService)) = 2"
    by simp
  from f1 c2 c3 c4 f2 c5 c6 show ?thesis by blast
qed

section \<open>Properties of the synthesis\<close>

subsection \<open>What MkdirAll and WriteFile do to the tree\<close>

definition isFile :: "memfs \<Rightarrow> fpath \<Rightarrow> bool" where
  "isFile fs q = (case fs q of Some (FileNode _ _) \<Rightarrow> True | _ \<Rightarrow> False)"

definition isDir :: "memfs \<Rightarrow> fpath \<Rightarrow> bool" where
  "isDir fs q = (case fs q of Some (DirNode _) \<Rightarrow> True | _ \<Rightarrow> False)"

text \<open>\<open>q\<close> is one of the directories that lead to \<open>d\<close>, \<open>d\<close> included.\<close>

definition onWay :: "fpath \<Rightarrow> fpath \<Rightarrow> bool" where
  "onWay q d = (q \<noteq> [] \<and> prefix q d)"

text \<open>The tree with the missing directories on the way to \<open>d\<close> added.\<close>

definition withDirs :: "memfs \<Rightarrow> fpath \<Rightarrow> FileMode \<Rightarrow> memfs" where
  "withDirs fs d perm = (\<lambda>q. if onWay q d \<and> fs q = None then Some (DirNode perm) else fs q)"

lemma onWay_Nil [simp]: "\<not> onWay r []"
  by (simp add: onWay_def)

lemma onWay_Cons: "onWay r (part # rest) = (r = [part] \<or> (\<exists>r'. onWay r' rest \<and> r = part # r'))"
  by (cases r) (auto simp: onWay_def prefix_Cons)

lemma mkdirParts_eq:
  "mkdirParts fs cur parts perm =
     (if \<exists>r. onWay r parts \<and> isFile fs (cur @ r)
      then Inl (Error ''not a directory'')
      else Inr (\<lambda>q. if (\<exists>r. onWay r parts \<and> q = cur @ r) \<and> fs q = None
                     then Some (DirNode perm) else fs q))"
proof (induction parts arbitrary: fs cur)
  case Nil
  show ?case by simp
next
  case (Cons part rest)
  let ?cur = "cur @ [part]"
  have ex: "(\<exists>r. onWay r (part # rest) \<and> P (cur @ r)) =
              (P ?cur \<or> (\<exists>r'. onWay r' rest \<and> P (?cur @ r')))" for P
    by (auto simp: onWay_Cons)
  have ne: "?cur @ r' \<noteq> ?cur" if "onWay r' rest" for r'
    using that by (auto simp: onWay_def)
  show ?case
  proof (cases "fs ?cur")
    case None
    let ?fs1 = "fs(?cur \<mapsto> DirNode perm)"
    have nf: "\<not> isFile fs ?cur" using None by (simp add: isFile_def)
    have f1: "(\<exists>r'. onWay r' rest \<and> isFile ?fs1 (?cur @ r')) =
              (\<exists>r'. onWay r' rest \<and> isFile fs (?cur @ r'))"
      using ne by (auto simp: isFile_def simp del: append_assoc)
    have res: "(\<lambda>q. if (\<exists>r'. onWay r' rest \<and> q = ?cur @ r') \<and> ?fs1 q = None
                     then Some (DirNode perm) else ?fs1 q) =
               (\<lambda>q. if (\<exists>r. onWay r (part # rest) \<and> q = cur @ r) \<and> fs q = None
                     then Some (DirNode perm) else fs q)"
    proof (rule ext)
      fix q
      show "(if (\<exists>r'. onWay r' rest \<and> q = ?cur @ r') \<and> ?fs1 q = None
                     then Some (DirNode perm) else ?fs1 q) =
            (if (\<exists>r. onWay r (part # rest) \<and> q = cur @ r) \<and> fs q = None
                     then Some (DirNode perm) else fs q)"
        using None ne ex [of "\<lambda>x. q = x"] by (cases "q = ?cur") (auto simp del: append_assoc)
    qed
    have "mkdirParts fs cur (part # rest) perm = mkdirParts ?fs1 ?cur rest perm"
      using None by simp
    also have "\<dots> = (if \<exists>r'. onWay r' rest \<and> isFile ?fs1 (?cur @ r')
      then Inl (Error ''not a directory'')
      else Inr (\<lambda>q. if (\<exists>r'. onWay r' rest \<and> q = ?cur @ r') \<and> ?fs1 q = None
                     then Some (DirNode perm) else ?fs1 q))"
      by (rule Cons.IH)
    finally show ?thesis
      unfolding f1 res using ex [of "isFile fs"] nf by simp
  next
    case (Some nd)
    show ?thesis
    proof (cases nd)
      case (FileNode b md)
      with Some have "isFile fs ?cur" by (simp add: isFile_def)
      with ex [of "isFile fs"] have "\<exists>r. onWay r (part # rest) \<and> isFile fs (cur @ r)"
        by simp
      with Some FileNode show ?thesis by simp
    next
      case (DirNode md)
      with Some have nf: "\<not> isFile fs ?cur" by (simp add: isFile_def)
      have res: "(\<lambda>q. if (\<exists>r'. onWay r' rest \<and> q = ?cur @ r') \<and> fs q = None
                     then Some (DirNode perm) else fs q) =
               (\<lambda>q. if (\<exists>r. onWay r (part # rest) \<and> q = cur @ r) \<and> fs q = None
                     then Some (DirNode perm) else fs q)"
      proof (rule ext)
        fix q
        show "(if (\<exists>r'. onWay r' rest \<and> q = ?cur @ r') \<and> fs q = None
                     then Some (DirNode perm) else fs q) =
            (if (\<exists>r. onWay r (part # rest) \<and> q = cur @ r) \<and> fs q = None
                     then Some (DirNode perm) else fs q)"
          using Some ex [of "\<lambda>x. q = x"] by (cases "q = ?cur") (auto simp del: append_assoc)
      qed
      have "mkdirParts fs cur (part # rest) perm = mkdirParts fs ?cur rest perm"
        using Some DirNode by simp
      also have "\<dots> = (if \<exists>r'. onWay r' rest \<and> isFile fs (?cur @ r')
        then Inl (Error ''not a directory'')
        else Inr (\<lambda>q. if (\<exists>r'. onWay r' rest \<and> q = ?cur @ r') \<and> fs q = None
                     then Some (DirNode perm) else fs q))"
        by (rule Cons.IH)
      finally show ?thesis
        unfolding res using ex [of "isFile fs"] nf by simp
    qed
  qed
qed

lemma MkdirAll_eq:
  "MkdirAll fs d perm =
     (if \<not> ValidPath d then Inl (Error ''invalid path'')
      else if \<exists>q. onWay q d \<and> isFile fs q then Inl (Error ''not a directory'')
      else Inr (withDirs fs d perm))"
  by (auto simp: MkdirAll_def mkdirParts_eq withDirs_def)

text \<open>
  When the manifest of a project can be put at \<open>mp\<close>, and the tree that results.
\<close>

definition canPlace :: "memfs \<Rightarrow> fpath \<Rightarrow> bool" where
  "canPlace fs mp =
     (ValidPath mp \<and> butlast mp \<noteq> [] \<and> (\<forall>q. onWay q (butlast mp) \<longrightarrow> \<not> isFile fs q) \<and>
      \<not> isDir fs mp)"

definition placed :: "memfs \<Rightarrow> fpath \<Rightarrow> FileMode \<Rightarrow> node \<Rightarrow> memfs" where
  "placed fs mp perm nd = (withDirs fs (butlast mp) perm)(mp \<mapsto> nd)"

lemma ValidPath_butlast: "ValidPath mp \<Longrightarrow> ValidPath (butlast mp)"
  by (induction mp) (auto simp: ValidPath_def)

lemma not_onWay_butlast: "\<not> onWay mp (butlast mp)"
proof
  assume "onWay mp (butlast mp)"
  then have "mp \<noteq> []" and "prefix mp (butlast mp)"
    by (simp_all add: onWay_def)
  from prefix_length_le [OF this(2)] this(1) show False
    by (cases mp rule: rev_cases) auto
qed

lemma mkdir_then_write:
  assumes "butlast mp \<noteq> []"
  shows "(case MkdirAll fs (butlast mp) pd of
            Inl err \<Rightarrow> Inl err
          | Inr fs1 \<Rightarrow> WriteFile fs1 mp bs pf) = Inr fs' \<longleftrightarrow>
         canPlace fs mp \<and> fs' = placed fs mp pd (FileNode bs pf)"
proof (cases "ValidPath mp \<and> (\<forall>q. onWay q (butlast mp) \<longrightarrow> \<not> isFile fs q)")
  case False
  show ?thesis
  proof (cases "ValidPath (butlast mp)")
    case valid: True
    show ?thesis
    proof (cases "\<exists>q. onWay q (butlast mp) \<and> isFile fs q")
      case True
      then show ?thesis by (auto simp: MkdirAll_eq canPlace_def valid)
    next
      case nofile: False
      with False have "\<not> ValidPath mp" by blast
      with nofile valid show ?thesis
        by (auto simp: MkdirAll_eq canPlace_def WriteFile_def)
    qed
  next
    case False
    then have "\<not> ValidPath mp" using ValidPath_butlast by blast
    with False show ?thesis by (auto simp: MkdirAll_eq canPlace_def)
  qed
next
  case True
  let ?d = "butlast mp"
  let ?fs1 = "withDirs fs ?d pd"
  from True have valid: "ValidPath mp" "ValidPath ?d" and nofile: "\<not> (\<exists>q. onWay q ?d \<and> isFile fs q)"
    by (auto intro: ValidPath_butlast)
  have mk: "MkdirAll fs ?d pd = Inr ?fs1"
    using valid nofile by (simp add: MkdirAll_eq)
  have dd: "onWay ?d ?d" using assms by (simp add: onWay_def)
  with nofile have "\<not> isFile fs ?d" by blast
  then have "isDir ?fs1 ?d"
    using dd by (auto simp: withDirs_def isDir_def isFile_def split: option.splits node.splits)
  then have gd: "getDir ?fs1 ?d = None"
    using assms by (auto simp: getDir_def isDir_def split: option.splits node.splits)
  have at: "?fs1 mp = fs mp"
    using not_onWay_butlast by (simp add: withDirs_def)
  have ne: "mp \<noteq> []" using assms by auto
  show ?thesis
    using valid nofile ne
    by (auto simp: mk WriteFile_def gd at canPlace_def placed_def isDir_def assms
        split: option.splits node.splits)
qed

lemma isFile_placed:
  "isFile (placed fs mp pd (FileNode bs pf)) q = (q = mp \<or> isFile fs q)"
  by (auto simp: placed_def withDirs_def isFile_def split: option.splits node.splits)

lemma isDir_placed:
  "isDir (placed fs mp pd (FileNode bs pf)) q =
     (q \<noteq> mp \<and> (isDir fs q \<or> onWay q (butlast mp) \<and> fs q = None))"
  by (auto simp: placed_def withDirs_def isDir_def split: option.splits node.splits)

lemma canPlace_swap:
  assumes "canPlace fs a" and "canPlace (placed fs a pd (FileNode x pf)) b" and "a \<noteq> b"
  shows "canPlace fs b \<and> canPlace (placed fs b pd (FileNode y pf)) a"
proof -
  from assms(2) have b: "ValidPath b" "butlast b \<noteq> []"
    "\<And>q. onWay q (butlast b) \<Longrightarrow> q \<noteq> a \<and> \<not> isFile fs q"
    "\<not> isDir fs b" "\<not> (onWay b (butlast a) \<and> fs b = None)"
    using assms(3) by (auto simp: canPlace_def isFile_placed isDir_placed)
  from assms(1) have a: "ValidPath a" "butlast a \<noteq> []"
    "\<And>q. onWay q (butlast a) \<Longrightarrow> \<not> isFile fs q" "\<not> isDir fs a"
    by (auto simp: canPlace_def)
  have nb: "\<not> onWay b (butlast a)"
  proof
    assume w: "onWay b (butlast a)"
    with b(5) have "fs b \<noteq> None" by simp
    with b(4) have "isFile fs b"
      by (auto simp: isFile_def isDir_def split: option.splits node.splits)
    with a(3) [OF w] show False by simp
  qed
  have na: "\<not> onWay a (butlast b)" using b(3) by blast
  show ?thesis
    using a b nb na assms(3)
    by (auto simp: canPlace_def isFile_placed isDir_placed)
qed

lemma placed_swap:
  assumes "a \<noteq> b"
  shows "placed (placed fs a pd (FileNode x pf)) b pd (FileNode y pf) =
         placed (placed fs b pd (FileNode y pf)) a pd (FileNode x pf)"
  using assms by (auto simp: placed_def withDirs_def fun_eq_iff)

subsection \<open>The order of the projects\<close>

lemma manifestPath_butlast: "manifestPath c p path = Inr mp \<Longrightarrow> butlast mp \<noteq> []"
  by (auto simp: manifestPath_def butlast_append split: sum.splits)

lemma writeProjectManifest_Inr:
  "writeProjectManifest c p m e fs = Inr fs' \<longleftrightarrow>
     (\<exists>bs mp. ContainerAppManifestTemplateForProject c m (fst e) = Inr bs \<and>
              manifestPath c p (snd e) = Inr mp \<and> canPlace fs mp \<and>
              fs' = placed fs mp (PermissionDirectoryOwnerOnly c)
                      (FileNode bs (PermissionFileOwnerOnly c)))"
proof (cases "ContainerAppManifestTemplateForProject c m (fst e)")
  case (Inl err)
  then show ?thesis by (simp add: writeProjectManifest_def)
next
  case (Inr bs)
  show ?thesis
  proof (cases "manifestPath c p (snd e)")
    case (Inl err)
    with Inr show ?thesis by (simp add: writeProjectManifest_def)
  next
    case mp: (Inr mp)
    from mkdir_then_write [OF manifestPath_butlast [OF mp]] Inr mp show ?thesis
      by (simp add: writeProjectManifest_def)
  qed
qed

lemma writeProjectManifest_swap:
  assumes "writeProjectManifest c p m a fs = Inr fs1"
    and "writeProjectManifest c p m b fs1 = Inr fs2"
    and "manifestPath c p (snd a) \<noteq> manifestPath c p (snd b)"
  shows "\<exists>fs1'. writeProjectManifest c p m b fs = Inr fs1' \<and>
                writeProjectManifest c p m a fs1' = Inr fs2"
proof -
  let ?pd = "PermissionDirectoryOwnerOnly c" and ?pf = "PermissionFileOwnerOnly c"
  from assms(1) obtain x mpa where a:
    "ContainerAppManifestTemplateForProject c m (fst a) = Inr x"
    "manifestPath c p (snd a) = Inr mpa" "canPlace fs mpa"
    "fs1 = placed fs mpa ?pd (FileNode x ?pf)"
    by (auto simp: writeProjectManifest_Inr)
  from assms(2) obtain y mpb where b:
    "ContainerAppManifestTemplateForProject c m (fst b) = Inr y"
    "manifestPath c p (snd b) = Inr mpb" "canPlace fs1 mpb"
    "fs2 = placed fs1 mpb ?pd (FileNode y ?pf)"
    by (auto simp: writeProjectManifest_Inr)
  from assms(3) a(2) b(2) have ne: "mpa \<noteq> mpb" by simp
  from canPlace_swap [OF a(3) b(3) [unfolded a(4)] ne, of y]
  have cb: "canPlace fs mpb" and ca: "canPlace (placed fs mpb ?pd (FileNode y ?pf)) mpa"
    by simp_all
  have "writeProjectManifest c p m b fs = Inr (placed fs mpb ?pd (FileNode y ?pf))"
    using b(1,2) cb by (simp add: writeProjectManifest_Inr)
  moreover have "writeProjectManifest c p m a (placed fs mpb ?pd (FileNode y ?pf)) = Inr fs2"
    using a(1,2) ca b(4) a(4) placed_swap [OF ne, of fs ?pd x ?pf y]
    by (simp add: writeProjectManifest_Inr)
  ultimately show ?thesis by blast
qed

lemma writeProjectManifests_Cons_Inr:
  "writeProjectManifests c p m (e # es) fs = Inr t \<longleftrightarrow>
     (\<exists>fs1. writeProjectManifest c p m e fs = Inr fs1 \<and> writeProjectManifests c p m es fs1 = Inr t)"
  by (cases "writeProjectManifest c p m e fs") simp_all

lemma writeProjectManifests_later:
  assumes "writeProjectManifests c p m (a # us @ vs) fs = Inr t"
    and "\<forall>u \<in> set us. manifestPath c p (snd u) \<noteq> manifestPath c p (snd a)"
  shows "writeProjectManifests c p m (us @ a # vs) fs = Inr t"
  using assms
proof (induction us arbitrary: fs)
  case Nil
  then show ?case by simp
next
  case (Cons u us)
  from Cons.prems(1) obtain fs1 fs2 where
    s1: "writeProjectManifest c p m a fs = Inr fs1"
    and s2: "writeProjectManifest c p m u fs1 = Inr fs2"
    and rest: "writeProjectManifests c p m (us @ vs) fs2 = Inr t"
    unfolding append_Cons writeProjectManifests_Cons_Inr by blast
  from Cons.prems(2) have ne: "manifestPath c p (snd a) \<noteq> manifestPath c p (snd u)"
    by auto
  from writeProjectManifest_swap [OF s1 s2 ne] obtain fs1' where
    t1: "writeProjectManifest c p m u fs = Inr fs1'"
    and t2: "writeProjectManifest c p m a fs1' = Inr fs2"
    by blast
  from t2 rest have "writeProjectManifests c p m (a # us @ vs) fs1' = Inr t"
    unfolding writeProjectManifests_Cons_Inr by blast
  from Cons.IH [OF this] Cons.prems(2)
  have "writeProjectManifests c p m (us @ a # vs) fs1' = Inr t" by simp
  with t1 show ?case
    unfolding append_Cons writeProjectManifests_Cons_Inr by blast
qed

lemma writeProjectManifests_order:
  assumes "mset ys = mset xs"
    and "distinct (map (\<lambda>e. manifestPath c p (snd e)) xs)"
    and "writeProjectManifests c p m xs fs = Inr t"
  shows "writeProjectManifests c p m ys fs = Inr t"
  using assms
proof (induction xs arbitrary: ys fs)
  case Nil
  then show ?case by simp
next
  case (Cons a xs)
  from Cons.prems(1) have "a \<in> set ys"
    by (metis list.set_intros(1) set_mset_mset)
  then obtain us vs where ys: "ys = us @ a # vs" by (auto dest: split_list)
  with Cons.prems(1) have ms: "mset (us @ vs) = mset xs" by simp
  from Cons.prems(3) obtain fs1 where
    s1: "writeProjectManifest c p m a fs = Inr fs1"
    and rest: "writeProjectManifests c p m xs fs1 = Inr t"
    unfolding writeProjectManifests_Cons_Inr by blast
  from Cons.prems(2) have d: "distinct (map (\<lambda>e. manifestPath c p (snd e)) xs)"
    and na: "\<forall>x \<in> set xs. manifestPath c p (snd x) \<noteq> manifestPath c p (snd a)"
    by (auto simp: image_iff)
  from Cons.IH [OF ms d rest] s1
  have "writeProjectManifests c p m (a # us @ vs) fs = Inr t"
    unfolding writeProjectManifests_Cons_Inr by blast
  moreover have "set us \<subseteq> set xs"
    using ms by (metis set_mset_mset set_append Un_upper1)
  ultimately show ?case
    unfolding ys using na by (intro writeProjectManifests_later) auto
qed

lemma writeProjectManifest_cong:
  assumes "ContainerAppManifestTemplateForProject c' = ContainerAppManifestTemplateForProject c"
    and "filepath_Rel c' = filepath_Rel c"
    and "PermissionDirectoryOwnerOnly c' = PermissionDirectoryOwnerOnly c"
    and "PermissionFileOwnerOnly c' = PermissionFileOwnerOnly c"
  shows "writeProjectManifest c' p m e fs = writeProjectManifest c p m e fs"
proof -
  have "manifestPath c' p (snd e) = manifestPath c p (snd e)"
    by (simp add: manifestPath_def assms(2))
  then show ?thesis
    by (simp add: writeProjectManifest_def assms(1,3,4) split: sum.splits)
qed

lemma writeProjectManifests_cong:
  assumes "ContainerAppManifestTemplateForProject c' = ContainerAppManifestTemplateForProject c"
    and "filepath_Rel c' = filepath_Rel c"
    and "PermissionDirectoryOwnerOnly c' = PermissionDirectoryOwnerOnly c"
    and "PermissionFileOwnerOnly c' = PermissionFileOwnerOnly c"
  shows "writeProjectManifests c' p m es fs = writeProjectManifests c p m es fs"
  by (induction es arbitrary: fs)
    (simp_all add: writeProjectManifest_cong [OF assms] split: sum.splits)

lemma walkInfra_cong:
  assumes "PermissionDirectoryOwnerOnly c' = PermissionDirectoryOwnerOnly c"
  shows "walkInfra c' es fs = walkInfra c es fs"
proof (induction es arbitrary: fs)
  case Nil
  show ?case by simp
next
  case (Cons e es)
  show ?case
    by (cases e) (simp_all add: assms Cons.IH split: sum.splits)
qed

lemma synthFiles_order:
  assumes "BicepTemplate c' = BicepTemplate c"
    and "ContainerAppManifestTemplateForProject c' = ContainerAppManifestTemplateForProject c"
    and "filepath_Rel c' = filepath_Rel c"
    and "PermissionDirectoryOwnerOnly c' = PermissionDirectoryOwnerOnly c"
    and "PermissionFileOwnerOnly c' = PermissionFileOwnerOnly c"
    and "mset (ProjectPaths c' m) = mset (ProjectPaths c m)"
    and "distinct (map (\<lambda>e. manifestPath c p (snd e)) (ProjectPaths c m))"
    and "synthFiles c p m = Return t"
  shows "synthFiles c' p m = Return t"
proof -
  from assms(8) obtain infraFS fs1 where
    b: "BicepTemplate c m = Inr infraFS"
    and w: "walkInfra c infraFS Map.empty = Inr fs1"
    and r: "writeProjectManifests c p m (ProjectPaths c m) fs1 = Inr t"
    by (auto simp: synthFiles_def split: sum.splits)
  from writeProjectManifests_order [OF assms(6,7) r]
  have "writeProjectManifests c' p m (ProjectPaths c' m) fs1 = Inr t"
    by (simp add: writeProjectManifests_cong [OF assms(2-5)])
  with b w show ?thesis
    by (simp add: synthFiles_def assms(1) walkInfra_cong [OF assms(4)])
qed

subsection \<open>Determinism\<close>

text \<open>
  Two projects in one directory, \<open>/work/Api/Api.csproj\<close> and \<open>/work/Api/Jobs.csproj\<close>; and
  the same collaborators when the \<open>range\<close> over the projects visits them the other way
  round.
\<close>

definition crowdedManifest :: Manifest where
  "crowdedManifest = \<lparr>Resources = [''api'' \<mapsto> apiResource, ''jobs'' \<mapsto> apiResource]\<rparr>"

definition crowded :: collaborators where
  "crowded =
     obliging
       \<lparr>ManifestFromAppHost := (\<lambda>_. Inr crowdedManifest),
        SelectPublicServices := (\<lambda>_. Inr [''api'']),
        ProjectPaths :=
          (\<lambda>_. [(''api'', ''/work/Api/Api.csproj''), (''jobs'', ''/work/Api/Jobs.csproj'')])\<rparr>"

definition crowdedOtherWay :: collaborators where
  "crowdedOtherWay =
     crowded
       \<lparr>ProjectPaths :=
          (\<lambda>_. [(''jobs'', ''/work/Api/Jobs.csproj''), (''api'', ''/work/Api/Api.csproj'')])\<rparr>"

text \<open>The obliging collaborators with the projects visited the other way round.\<close>

definition obligingOtherWay :: collaborators where
  "obligingOtherWay =
     obliging
       \<lparr>ProjectPaths :=
          (\<lambda>_. [(''api'', ''/work/Api/Api.csproj''), (''web'', ''/work/Web/Web.csproj'')])\<rparr>"

lemma crowded_first:
  "readManifest crowded fresh sampleService =
     (Return (exposeAll {''api''} crowdedManifest),
      fresh\<lparr>cache := [Path sampleService \<mapsto> exposeAll {''api''} crowdedManifest],
            envConfig := [exposedServicesKey (Name sampleService) \<mapsto> CfgStrings [''api'']],
            savedConfig := Some [exposedServicesKey (Name sampleService) \<mapsto> CfgStrings [''api'']],
            journal := [Discover (Path sampleService), EnvGetValue, SelectPrompt,
                        ConfigSet (exposedServicesKey (Name sampleService)) [''api''],
                        EnvManagerGetValue, EnvSave]\<rparr>)"
proof -
  have sel: "exposeSelected (nilResourcePanics crowded) [''api''] crowdedManifest =
               Some (exposeAll {''api''} crowdedManifest)"
    by (simp add: exposeSelected_eq crowdedManifest_def)
  have d: "ManifestFromAppHost crowded (Path sampleService) = Inr crowdedManifest"
    and e: "lazyEnv_GetValue crowded = None"
    and s: "SelectPublicServices crowded crowdedManifest = Inr [''api'']"
    and o: "Config_Set crowded k ns = None" "lazyEnvManager_GetValue crowded = None"
      "envManager_Save crowded cfg = None" for k ns cfg
    by (simp_all add: crowded_def obliging_def)
  have "selectAndPersist crowded sampleService crowdedManifest s0 =
     (Return (exposeAll {''api''} crowdedManifest),
      s0\<lparr>cache := (cache s0)(Path sampleService \<mapsto> exposeAll {''api''} crowdedManifest),
        envConfig := (envConfig s0)(exposedServicesKey (Name sampleService) \<mapsto> CfgStrings [''api'']),
        savedConfig :=
          Some ((envConfig s0)(exposedServicesKey (Name sampleService) \<mapsto> CfgStrings [''api''])),
        journal := journal s0 @ [SelectPrompt,
                                ConfigSet (exposedServicesKey (Name sampleService)) [''api''],
                                EnvManagerGetValue, EnvSave]\<rparr>)" for s0
    by (rule selectAndPersist_ok [OF s sel]) (simp_all add: o)
  then show ?thesis
    by (simp add: readManifest_miss [OF _ d] fresh_simps exposeAndStore_absent [OF e] emit_def)
qed

text \<open>The two trees that differ in the manifest left in \<open>Api/manifests\<close>.\<close>

definition jobsLast :: memfs where
  "jobsLast =
     [[''infra''] \<mapsto> DirNode 448,
      [''infra'', ''main.bicep''] \<mapsto> FileNode ''targetScope'' 0,
      [''Api''] \<mapsto> DirNode 448,
      [''Api'', ''manifests''] \<mapsto> DirNode 448,
      [''Api'', ''manifests'', ''containerApp.tmpl.yaml''] \<mapsto> FileNode ''name: jobs'' 384]"

definition apiLast :: memfs where
  "apiLast =
     [[''infra''] \<mapsto> DirNode 448,
      [''infra'', ''main.bicep''] \<mapsto> FileNode ''targetScope'' 0,
      [''Api''] \<mapsto> DirNode 448,
      [''Api'', ''manifests''] \<mapsto> DirNode 448,
      [''Api'', ''manifests'', ''containerApp.tmpl.yaml''] \<mapsto> FileNode ''name: api'' 384]"

lemma synthFiles_crowded: "synthFiles crowded sampleProject m = Return jobsLast"
  by (simp add: synthFiles_def crowded_def obliging_def MkdirAll_def WriteFile_def
      ValidPath_def getDir_def writeProjectManifest_def manifestPath_def sampleRel_def
      sampleProject_def jobsLast_def)

lemma synthFiles_crowdedOtherWay: "synthFiles crowdedOtherWay sampleProject m = Return apiLast"
  by (simp add: synthFiles_def crowdedOtherWay_def crowded_def obliging_def MkdirAll_def
      WriteFile_def ValidPath_def getDir_def writeProjectManifest_def manifestPath_def
      sampleRel_def sampleProject_def apiLast_def)

text \<open>
  Claim C5 says that two runs of the synthesizer on the same topology and decisions give
  the same tree. The manifests of two projects in one directory are written to the same
  path, \<open>Api/manifests/containerApp.tmpl.yaml\<close>, and the one written last stays. Go does
  not fix the order in which \<open>range\<close> visits the map of projects: a first call that
  visits \<open>api\<close> before \<open>jobs\<close> leaves the manifest of \<open>jobs\<close> there, and a second call on
  the same importer, which takes the manifest from the cache and changes nothing in the
  importer, leaves the manifest of \<open>api\<close> when it visits them the other way round.
\<close>

theorem synthesis_depends_on_visiting_order:
  "fst (SynthAllInfrastructure crowded fresh sampleProject sampleService) = Return jobsLast \<and>
   fst (SynthAllInfrastructure crowdedOtherWay
          (snd (SynthAllInfrastructure crowded fresh sampleProject sampleService))
          sampleProject sampleService) = Return apiLast \<and>
   snd (SynthAllInfrastructure crowdedOtherWay
          (snd (SynthAllInfrastructure crowded fresh sampleProject sampleService))
          sampleProject sampleService) =
     snd (SynthAllInfrastructure crowded fresh sampleProject sampleService) \<and>
   jobsLast [''Api'', ''manifests'', ''containerApp.tmpl.yaml''] = Some (FileNode ''name: jobs'' 384) \<and>
   apiLast [''Api'', ''manifests'', ''containerApp.tmpl.yaml''] = Some (FileNode ''name: api'' 384)"
proof -
  obtain s1 where first: "readManifest crowded fresh sampleService =
                            (Return (exposeAll {''api''} crowdedManifest), s1)"
    and hit: "cache s1 (Path sampleService) = Some (exposeAll {''api''} crowdedManifest)"
    using crowded_first by simp
  have second: "readManifest crowdedOtherWay s1 sampleService =
                  (Return (exposeAll {''api''} crowdedManifest), s1)"
    by (rule readManifest_hit [OF hit])
  have a: "SynthAllInfrastructure crowded fresh sampleProject sampleService =
             (synthFiles crowded sampleProject (exposeAll {''api''} crowdedManifest), s1)"
    by (simp add: SynthAllInfrastructure_def first)
  have b: "SynthAllInfrastructure crowdedOtherWay s1 sampleProject sampleService =
             (synthFiles crowdedOtherWay sampleProject (exposeAll {''api''} crowdedManifest), s1)"
    by (simp add: SynthAllInfrastructure_def second)
  show ?thesis
    unfolding a snd_conv fst_conv b
    by (simp add: synthFiles_crowded synthFiles_crowdedOtherWay) (simp add: jobsLast_def apiLast_def)
qed

text \<open>
  Claim C5, amended. Take a manifest whose projects all have different places for their
  manifests (no two projects in one directory), and two runs in which the renderers, the
  path arithmetic and the permissions are the same and the projects are the same,
  visited in whatever orders. If the first run yields a tree, the second yields the same
  tree: both from the manifest alone, and as two calls of \<open>SynthAllInfrastructure\<close> on one
  importer, the second of which finds the manifest in the cache.
\<close>

theorem synthesis_deterministic:
  assumes "BicepTemplate c' = BicepTemplate c"
    and "ContainerAppManifestTemplateForProject c' = ContainerAppManifestTemplateForProject c"
    and "filepath_Rel c' = filepath_Rel c"
    and "PermissionDirectoryOwnerOnly c' = PermissionDirectoryOwnerOnly c"
    and "PermissionFileOwnerOnly c' = PermissionFileOwnerOnly c"
    and "mset (ProjectPaths c' m) = mset (ProjectPaths c m)"
    and "distinct (map (\<lambda>e. manifestPath c p (snd e)) (ProjectPaths c m))"
  shows "(synthFiles c p m = Return t \<longrightarrow> synthFiles c' p m = Return t) \<and>
         (SynthAllInfrastructure c s p svc = (Return t, s') \<and> cache s' (Path svc) = Some m \<longrightarrow>
            SynthAllInfrastructure c' s' p svc = (Return t, s'))"
proof (intro conjI impI)
  assume "synthFiles c p m = Return t"
  then show "synthFiles c' p m = Return t" by (rule synthFiles_order [OF assms])
next
  assume a: "SynthAllInfrastructure c s p svc = (Return t, s') \<and> cache s' (Path svc) = Some m"
  obtain r s1 where rm: "readManifest c s svc = (r, s1)" by (cases "readManifest c s svc")
  with a obtain m1 where r: "r = Return m1" and s1: "s1 = s'" and t: "synthFiles c p m1 = Return t"
    by (cases r) (auto simp: SynthAllInfrastructure_def)
  from readManifest_cache [OF rm] r s1 a have "m1 = m" by simp
  with t have "synthFiles c' p m = Return t" by (simp add: synthFiles_order [OF assms])
  moreover from a have "readManifest c' s' svc = (Return m, s')" by (simp add: readManifest_hit)
  ultimately show "SynthAllInfrastructure c' s' p svc = (Return t, s')"
    by (simp add: SynthAllInfrastructure_def)
qed

lemma synthFiles_obliging:
  "synthFiles obliging sampleProject m = Return sampleTree"
  by (simp add: synthFiles_def obliging_def MkdirAll_def WriteFile_def
      ValidPath_def getDir_def writeProjectManifest_def manifestPath_def sampleRel_def
      sampleProject_def sampleTree_def)

text \<open>The projects \<open>web\<close> and \<open>api\<close>, in their own directories, visited both ways.\<close>

theorem synthesis_deterministic_witness:
  "synthFiles obliging sampleProject (exposeAll {''web''} sampleManifest) = Return sampleTree \<and>
   synthFiles obligingOtherWay sampleProject (exposeAll {''web''} sampleManifest) = Return sampleTree \<and>
   SynthAllInfrastructure obligingOtherWay
       (snd (SynthAllInfrastructure obliging fresh sampleProject sampleService))
       sampleProject sampleService =
     (Return sampleTree, snd (SynthAllInfrastructure obliging fresh sampleProject sampleService))"
proof -
  let ?m = "exposeAll {''web''} sampleManifest"
  let ?s' = "snd (SynthAllInfrastructure obliging fresh sampleProject sampleService)"
  have f: "BicepTemplate obligingOtherWay = BicepTemplate obliging"
    "ContainerAppManifestTemplateForProject obligingOtherWay =
       ContainerAppManifestTemplateForProject obliging"
    "filepath_Rel obligingOtherWay = filepath_Rel obliging"
    "PermissionDirectoryOwnerOnly obligingOtherWay = PermissionDirectoryOwnerOnly obliging"
    "PermissionFileOwnerOnly obligingOtherWay = PermissionFileOwnerOnly obliging"
    by (simp_all add: obligingOtherWay_def)
  have ms: "mset (ProjectPaths obligingOtherWay ?m) = mset (ProjectPaths obliging ?m)"
    by (simp add: obligingOtherWay_def obliging_def)
  have ds: "distinct (map (\<lambda>e. manifestPath obliging sampleProject (snd e)) (ProjectPaths obliging ?m))"
    by (simp add: obliging_def manifestPath_def sampleRel_def sampleProject_def)
  have first: "synthFiles obliging sampleProject ?m = Return sampleTree"
    by (rule synthFiles_obliging)
  have call: "SynthAllInfrastructure obliging fresh sampleProject sampleService = (Return sampleTree, ?s')"
    by (simp add: SynthAllInfrastructure_def obliging_first synthFiles_obliging)
  have hit: "cache ?s' (Path sampleService) = Some ?m"
    by (simp add: SynthAllInfrastructure_snd obliging_first)
  note T = synthesis_deterministic [OF f ms ds, where t = sampleTree and s = fresh
      and svc = sampleService and s' = ?s']
  from T first have second: "synthFiles obligingOtherWay sampleProject ?m = Return sampleTree"
    by blast
  from T call hit have third: "SynthAllInfrastructure obligingOtherWay ?s' sampleProject sampleService =
     (Return sampleTree, ?s')"
    by blast
  from first second third show ?thesis by blast
qed

section \<open>The staged merge of InitFromApp (cli/azd/internal/repository/app\_init.go)\<close>

subsection \<open>The disk and the surroundings\<close>

text \<open>
  The disk is a map from absolute paths, lists of elements, to nodes. \<open>filepath.Join\<close>
  appends and \<open>filepath.Dir\<close> drops the last element; the relative paths that the
  generators hand out are clean and have no \<open>".."\<close> element.
\<close>

type_synonym disk = "fpath \<rightharpoonup> node"

text \<open>\<open>apphost.ContentsAndMode\<close>, as \<open>InitFromApp\<close> reads it.\<close>

record ContentsAndMode =
  Contents :: bytes
  Mode :: FileMode

text \<open>
  Modelled from the spec: \<open>promptForDuplicates\<close>, \<open>writeCoreAssets\<close>, \<open>scaffold.Load\<close>,
  \<open>scaffold.ExecInfra\<close> and \<open>scaffold.Execute\<close> are not among the sources.
  \<open>promptForDuplicates\<close> compares the staged files with the destination and asks the
  user; it answers with the staged paths to keep out of the copy (a nil map is \<open>None\<close>),
  with an error, or it panics, and it writes nothing. \<open>scaffold.ExecInfra\<close> renders into
  the directory it is given: \<open>scaffold_ExecInfra\<close> lists the files it wrote there, and the
  error if it then failed. \<open>scaffold_Execute\<close> is the file rendered for \<open>next-steps.md\<close>.
  \<open>writeCoreAssets\<close> may do to the disk whatever it does.

  The rest is what the operating system and the libraries answer during one call of
  \<open>InitFromApp\<close>. \<open>os_MkdirAll\<close> and \<open>os_WriteFile\<close> give the error, if any, of the two
  calls that stage the file with the given relative path. \<open>copy_Copy\<close> is \<open>None\<close> when
  the copy succeeds, and otherwise its error with the relative paths it had copied by
  then. \<open>os_RemoveAll\<close> is the error that the deferred call discards. \<open>os_umask\<close> is the
  file mode creation mask of the process (0 where the system has none).
  \<open>PermissionDirectory\<close> belongs to the osutil package.
\<close>

record surroundings =
  os_MkdirTemp :: "error + fpath"
  os_MkdirAll :: "fpath \<Rightarrow> error option"
  os_WriteFile :: "fpath \<Rightarrow> error option"
  promptForDuplicates :: "disk \<Rightarrow> fpath \<Rightarrow> fpath \<Rightarrow> fpath list option outcome"
  copy_Copy :: "(error \<times> (fpath \<Rightarrow> bool)) option"
  os_RemoveAll :: "error option"
  writeCoreAssets :: "disk \<Rightarrow> unit outcome \<times> disk"
  scaffold_Load :: "error option"
  scaffold_ExecInfra :: "(fpath \<times> ContentsAndMode) list \<times> error option"
  infra_MkdirAll :: "error option"
  scaffold_Execute :: "error + ContentsAndMode"
  os_umask :: FileMode
  PermissionDirectory :: FileMode

subsection \<open>The steps\<close>

text \<open>
  The mode that a file or a directory has when it is created with \<open>perm\<close>: the system
  clears the bits of the mask, \<open>perm &^ umask\<close>.
\<close>

unbundle bit_operations_syntax

definition created :: "surroundings \<Rightarrow> FileMode \<Rightarrow> FileMode" where
  "created w perm = perm - (perm AND os_umask w)"

text \<open>
  \<open>os.WriteFile(name, data, perm)\<close> creates the file with \<open>perm\<close>, less the mask, or
  truncates the file that is there and leaves its mode as it is.
\<close>

definition writeFile :: "surroundings \<Rightarrow> fpath \<Rightarrow> bytes \<Rightarrow> FileMode \<Rightarrow> disk \<Rightarrow> disk" where
  "writeFile w name data perm d =
     d(name \<mapsto> FileNode data (case d name of
                                  Some (FileNode _ mode) \<Rightarrow> mode
                                | _ \<Rightarrow> created w perm))"

text \<open>
  \<open>os.MkdirAll(filepath.Join(staging, filepath.Dir(path)), ...)\<close> followed by
  \<open>os.WriteFile(filepath.Join(staging, path), ...)\<close>. A successful \<open>os.MkdirAll\<close> adds the
  directories that are missing on the way, each with the mode asked for, less the mask.
\<close>

definition stageFile ::
  "surroundings \<Rightarrow> fpath \<Rightarrow> fpath \<times> ContentsAndMode \<Rightarrow> disk \<Rightarrow> error option \<times> disk" where
  "stageFile w staging entry d =
     (case os_MkdirAll w (fst entry) of
        Some err \<Rightarrow> (Some err, d)
      | None \<Rightarrow>
          (let d1 = withDirs d (staging @ butlast (fst entry))
                      (created w (PermissionDirectory w)) in
           case os_WriteFile w (fst entry) of
             Some err \<Rightarrow> (Some err, d1)
           | None \<Rightarrow>
               (None,
                writeFile w (staging @ fst entry) (Contents (snd entry)) (Mode (snd entry)) d1)))"

text \<open>
  The loop of lines 184 to 192 over the entries of \<open>files\<close>, in the order in which
  \<open>range\<close> visits them.
\<close>

fun stageFiles ::
  "surroundings \<Rightarrow> fpath \<Rightarrow> (fpath \<times> ContentsAndMode) list \<Rightarrow> disk \<Rightarrow> error option \<times> disk"
  where
  "stageFiles w staging [] d = (None, d)"
| "stageFiles w staging (entry # rest) d =
     (case stageFile w staging entry d of
        (Some err, d1) \<Rightarrow> (Some err, d1)
      | (None, d1) \<Rightarrow> stageFiles w staging rest d1)"

text \<open>
  The \<open>Skip\<close> option of lines 199 to 205. The copy asks it for every entry below the
  source directory, with the path of the entry in the staging directory, and leaves out
  an entry, with all below it, when the answer is yes. With a nil map no option is set.
\<close>

definition skipped :: "fpath list option \<Rightarrow> fpath \<Rightarrow> fpath \<Rightarrow> bool" where
  "skipped skipStagingFiles staging rel =
     (case skipStagingFiles of
        None \<Rightarrow> False
      | Some keep \<Rightarrow> list_ex (\<lambda>k. staging @ take k rel \<in> set keep) [1..<Suc (length rel)])"

text \<open>
  \<open>copy.Copy(staging, dest, options)\<close>: every entry of the staging directory that is not
  left out is copied to the same relative path below \<open>dest\<close>, the directory itself
  included; \<open>copied\<close> tells how far a copy that failed had come.
\<close>

definition copyTree ::
  "fpath \<Rightarrow> fpath \<Rightarrow> fpath list option \<Rightarrow> (fpath \<Rightarrow> bool) \<Rightarrow> disk \<Rightarrow> disk" where
  "copyTree staging dest skipStagingFiles copied d =
     (\<lambda>q. if prefix dest q \<and> \<not> skipped skipStagingFiles staging (drop (length dest) q) \<and>
             copied (drop (length dest) q)
          then (case d (staging @ drop (length dest) q) of Some nd \<Rightarrow> Some nd | None \<Rightarrow> d q)
          else d q)"

definition copyStaging ::
  "surroundings \<Rightarrow> fpath \<Rightarrow> fpath \<Rightarrow> fpath list option \<Rightarrow> disk \<Rightarrow> unit outcome \<times> disk" where
  "copyStaging w staging dest skipStagingFiles d =
     (case copy_Copy w of
        Some (err, copied) \<Rightarrow>
          (ReturnErr (Wrap ''copying contents from temp staging directory'' err),
           copyTree staging dest skipStagingFiles copied d)
      | None \<Rightarrow> (Return (), copyTree staging dest skipStagingFiles (\<lambda>_. True) d))"

text \<open>Lines 194 to 209, and 283 to 298: the prompt, then the copy.\<close>

definition promptAndCopy ::
  "surroundings \<Rightarrow> fpath \<Rightarrow> fpath \<Rightarrow> disk \<Rightarrow> unit outcome \<times> disk" where
  "promptAndCopy w staging dest d =
     (case promptForDuplicates w d staging dest of
        Panicked \<Rightarrow> (Panicked, d)
      | ReturnErr err \<Rightarrow> (ReturnErr err, d)
      | Return skipStagingFiles \<Rightarrow> copyStaging w staging dest skipStagingFiles d)"

text \<open>
  The deferred \<open>_ = os.RemoveAll(staging)\<close>. When it succeeds the directory and all below
  it are gone; when it fails the directory is still there (the model keeps all of it,
  where the call may have removed part of what was below).
\<close>

definition RemoveAll :: "surroundings \<Rightarrow> fpath \<Rightarrow> disk \<Rightarrow> disk" where
  "RemoveAll w staging d =
     (case os_RemoveAll w of
        Some err \<Rightarrow> d
      | None \<Rightarrow> (\<lambda>q. if prefix staging q then None else d q))"

subsection \<open>The app host path (lines 178 to 219)\<close>

definition mergeArtifacts ::
  "surroundings \<Rightarrow> (fpath \<times> ContentsAndMode) list \<Rightarrow> fpath \<Rightarrow> fpath \<Rightarrow> disk
     \<Rightarrow> unit outcome \<times> disk" where
  "mergeArtifacts w files staging projectDirectory d =
     (case stageFiles w staging files d of
        (Some err, d1) \<Rightarrow> (ReturnErr err, d1)
      | (None, d1) \<Rightarrow> promptAndCopy w staging projectDirectory d1)"

text \<open>\<open>os.MkdirTemp\<close> makes the directory with mode 0700, less the mask.\<close>

definition InitFromApp_AppHost ::
  "surroundings \<Rightarrow> (fpath \<times> ContentsAndMode) list \<Rightarrow> fpath \<Rightarrow> disk \<Rightarrow> unit outcome \<times> disk"
  where
  "InitFromApp_AppHost w files projectDirectory d =
     (case os_MkdirTemp w of
        Inl err \<Rightarrow> (ReturnErr (Wrap ''mkdir temp'' err), d)
      | Inr staging \<Rightarrow>
          (case (case mergeArtifacts w files staging projectDirectory (d(staging \<mapsto> DirNode (created w 448))) of
                   (Return _, d2) \<Rightarrow> writeCoreAssets w d2
                 | (r, d2) \<Rightarrow> (r, d2)) of
             (r, d3) \<Rightarrow> (r, RemoveAll w staging d3)))"

subsection \<open>The scaffold path (lines 258 to 309)\<close>

text \<open>
  Modelled from the spec: \<open>scaffold.ExecInfra(t, spec, staging)\<close> renders its files into
  the directory it is given, each under its relative path, as \<open>os.MkdirAll\<close> and
  \<open>os.WriteFile\<close> write them.
\<close>

fun renderInto ::
  "surroundings \<Rightarrow> fpath \<Rightarrow> (fpath \<times> ContentsAndMode) list \<Rightarrow> disk \<Rightarrow> disk" where
  "renderInto w staging [] d = d"
| "renderInto w staging (entry # rest) d =
     renderInto w staging rest
       (writeFile w (staging @ fst entry) (Contents (snd entry)) (Mode (snd entry))
          (withDirs d (staging @ butlast (fst entry)) (created w (PermissionDirectory w))))"

text \<open>Lines 269 to 281: the disk when \<open>promptForDuplicates\<close> is called, unless an error came first.\<close>

definition stageInfra ::
  "surroundings \<Rightarrow> fpath \<Rightarrow> fpath \<Rightarrow> disk \<Rightarrow> error option \<times> disk" where
  "stageInfra w staging infra d =
     (case scaffold_Load w of
        Some err \<Rightarrow> (Some (Wrap ''loading scaffold templates'' err), d)
      | None \<Rightarrow>
          (let d1 = renderInto w staging (fst (scaffold_ExecInfra w)) d in
           case snd (scaffold_ExecInfra w) of
             Some err \<Rightarrow> (Some err, d1)
           | None \<Rightarrow>
               (case infra_MkdirAll w of
                  Some err \<Rightarrow> (Some err, d1)
                | None \<Rightarrow> (None, withDirs d1 infra (created w (PermissionDirectory w))))))"

text \<open>Lines 269 to 298, with \<open>infra\<close> the destination.\<close>

definition mergeInfra ::
  "surroundings \<Rightarrow> fpath \<Rightarrow> fpath \<Rightarrow> disk \<Rightarrow> unit outcome \<times> disk" where
  "mergeInfra w staging infra d =
     (case stageInfra w staging infra d of
        (Some err, d1) \<Rightarrow> (ReturnErr err, d1)
      | (None, d1) \<Rightarrow> promptAndCopy w staging infra d1)"

definition InitFromApp_Infra ::
  "surroundings \<Rightarrow> fpath \<Rightarrow> disk \<Rightarrow> unit outcome \<times> disk" where
  "InitFromApp_Infra w projectDirectory d =
     (case os_MkdirTemp w of
        Inl err \<Rightarrow> (ReturnErr (Wrap ''mkdir temp'' err), d)
      | Inr staging \<Rightarrow>
          (case (case mergeInfra w staging (projectDirectory @ [''infra''])
                        (d(staging \<mapsto> DirNode (created w 448))) of
                   (Return _, d2) \<Rightarrow>
                     (case scaffold_Execute w of
                        Inl err \<Rightarrow> (ReturnErr err, d2)
                      | Inr f \<Rightarrow>
                          (Return (),
                           writeFile w (projectDirectory @ [''next-steps.md''])
                             (Contents f) (Mode f) d2))
                 | (r, d2) \<Rightarrow> (r, d2)) of
             (r, d3) \<Rightarrow> (r, RemoveAll w staging d3)))"

section \<open>Properties of the staged merge\<close>

subsection \<open>Concrete scenarios\<close>

text \<open>
  A project in \<open>/home/me/app\<close> that has an \<open>azure.yaml\<close>; two generated files; the
  temporary directory \<open>/tmp/azd-infra1\<close>.
\<close>

definition projectDir :: fpath where
  "projectDir = [''home'', ''me'', ''app'']"

definition tmpStaging :: fpath where
  "tmpStaging = [''tmp'', ''azd-infra1'']"

definition disk0 :: disk where
  "disk0 =
     [[''tmp''] \<mapsto> DirNode 511,
      [''home''] \<mapsto> DirNode 493,
      [''home'', ''me''] \<mapsto> DirNode 493,
      [''home'', ''me'', ''app''] \<mapsto> DirNode 493,
      [''home'', ''me'', ''app'', ''azure.yaml''] \<mapsto> FileNode ''name: mine'' 420]"

definition generated :: "(fpath \<times> ContentsAndMode) list" where
  "generated =
     [([''infra'', ''main.bicep''], \<lparr>Contents = ''targetScope'', Mode = 420\<rparr>),
      ([''azure.yaml''], \<lparr>Contents = ''name: app'', Mode = 420\<rparr>)]"

text \<open>Surroundings in which nothing fails and the user keeps nothing.\<close>

definition calm :: surroundings where
  "calm =
     \<lparr>os_MkdirTemp = Inr tmpStaging,
      os_MkdirAll = (\<lambda>_. None),
      os_WriteFile = (\<lambda>_. None),
      promptForDuplicates = (\<lambda>_ _ _. Return None),
      copy_Copy = None,
      os_RemoveAll = None,
      writeCoreAssets = (\<lambda>d. (Return (), d)),
      scaffold_Load = None,
      scaffold_ExecInfra = ([([''main.bicep''], \<lparr>Contents = ''targetScope'', Mode = 420\<rparr>)], None),
      infra_MkdirAll = None,
      scaffold_Execute = Inr \<lparr>Contents = ''Next steps'', Mode = 420\<rparr>,
      os_umask = 18,
      PermissionDirectory = 493\<rparr>"

text \<open>The user keeps the \<open>azure.yaml\<close> that is there.\<close>

definition keeping :: surroundings where
  "keeping = calm\<lparr>promptForDuplicates := (\<lambda>_ staging _. Return (Some [staging @ [''azure.yaml'']]))\<rparr>"

text \<open>The prompt panics; the disk fills up during the copy; the removal fails.\<close>

definition panicking :: surroundings where
  "panicking = calm\<lparr>promptForDuplicates := (\<lambda>_ _ _. Panicked)\<rparr>"

definition fillingUp :: surroundings where
  "fillingUp = calm\<lparr>copy_Copy := Some (Error ''no space left on device'', (\<lambda>rel. rel = []))\<rparr>"

definition stuck :: surroundings where
  "stuck = calm\<lparr>os_RemoveAll := Some (Error ''permission denied'')\<rparr>"

lemmas merge_defs =
  InitFromApp_AppHost_def InitFromApp_Infra_def mergeArtifacts_def mergeInfra_def
  stageInfra_def stageFile_def promptAndCopy_def copyStaging_def copyTree_def RemoveAll_def
  writeFile_def created_def skipped_def withDirs_def onWay_def projectDir_def tmpStaging_def disk0_def generated_def


subsection \<open>Removing the staging directory\<close>

text \<open>
  Claim C8 says that the staging directory is gone when the operation ends. The deferred
  call discards the error of \<open>os.RemoveAll\<close>: when the removal fails, both paths of
  \<open>InitFromApp\<close> return without error and the directory that \<open>os.MkdirTemp\<close> made is
  still on the disk.
\<close>

theorem staging_left_behind:
  "fst (InitFromApp_AppHost stuck generated projectDir disk0) = Return () \<and>
   snd (InitFromApp_AppHost stuck generated projectDir disk0) tmpStaging = Some (DirNode 448) \<and>
   fst (InitFromApp_Infra stuck projectDir disk0) = Return () \<and>
   snd (InitFromApp_Infra stuck projectDir disk0) tmpStaging = Some (DirNode 448)"
  by (simp add: merge_defs stuck_def calm_def)

lemma RemoveAll_gone:
  "os_RemoveAll w = None \<Longrightarrow> prefix staging q \<Longrightarrow> RemoveAll w staging d q = None"
  by (simp add: RemoveAll_def)

lemma RemoveAll_elsewhere:
  "\<not> prefix staging q \<Longrightarrow> RemoveAll w staging d q = d q"
  by (simp add: RemoveAll_def split: option.splits)

lemma InitFromApp_AppHost_snd:
  "os_MkdirTemp w = Inr staging \<Longrightarrow>
   \<exists>d3. snd (InitFromApp_AppHost w files projectDirectory d) = RemoveAll w staging d3"
  by (auto simp: InitFromApp_AppHost_def split: prod.splits)

lemma InitFromApp_Infra_snd:
  "os_MkdirTemp w = Inr staging \<Longrightarrow>
   \<exists>d3. snd (InitFromApp_Infra w projectDirectory d) = RemoveAll w staging d3"
  by (auto simp: InitFromApp_Infra_def split: prod.splits)

text \<open>
  Claim C8, amended. Once \<open>os.MkdirTemp\<close> has made the staging directory, \<open>os.RemoveAll\<close>
  is called on it however the operation ends, be it a return without error, a return with
  one or a panic; the error of the removal is discarded. So when the removal succeeds,
  neither the directory nor anything below it is on the disk after the operation, on
  both paths of \<open>InitFromApp\<close> and for every outcome.
\<close>

theorem staging_removed:
  assumes "os_MkdirTemp w = Inr staging"
    and "os_RemoveAll w = None"
    and "prefix staging q"
  shows "snd (InitFromApp_AppHost w files projectDirectory d) q = None \<and>
         snd (InitFromApp_Infra w projectDirectory d) q = None"
proof -
  from InitFromApp_AppHost_snd [OF assms(1)] obtain d3 where
    "snd (InitFromApp_AppHost w files projectDirectory d) = RemoveAll w staging d3" by blast
  moreover from InitFromApp_Infra_snd [OF assms(1)] obtain d4 where
    "snd (InitFromApp_Infra w projectDirectory d) = RemoveAll w staging d4" by blast
  ultimately show ?thesis
    by (simp add: RemoveAll_gone [OF assms(2,3)])
qed

lemma calm_simps:
  "os_MkdirTemp calm = Inr tmpStaging" "os_RemoveAll calm = None"
  "os_MkdirTemp panicking = Inr tmpStaging" "os_RemoveAll panicking = None"
  "os_MkdirTemp fillingUp = Inr tmpStaging" "os_RemoveAll fillingUp = None"
  "os_MkdirTemp keeping = Inr tmpStaging" "os_RemoveAll keeping = None"
  by (simp_all add: calm_def panicking_def fillingUp_def keeping_def)

text \<open>A run without error, a copy that fails, and a prompt that panics.\<close>

theorem staging_removed_witness:
  "fst (InitFromApp_AppHost calm generated projectDir disk0) = Return () \<and>
   snd (InitFromApp_AppHost calm generated projectDir disk0) tmpStaging = None \<and>
   snd (InitFromApp_AppHost calm generated projectDir disk0) (tmpStaging @ [''azure.yaml'']) = None \<and>
   fst (InitFromApp_AppHost fillingUp generated projectDir disk0) =
     ReturnErr (Wrap ''copying contents from temp staging directory''
                  (Error ''no space left on device'')) \<and>
   snd (InitFromApp_AppHost fillingUp generated projectDir disk0) tmpStaging = None \<and>
   fst (InitFromApp_Infra panicking projectDir disk0) = Panicked \<and>
   snd (InitFromApp_Infra panicking projectDir disk0) tmpStaging = None"
proof -
  have p: "prefix tmpStaging tmpStaging" "prefix tmpStaging (tmpStaging @ [''azure.yaml''])"
    by simp_all
  have o1: "fst (InitFromApp_AppHost calm generated projectDir disk0) = Return ()"
    by (simp add: merge_defs calm_def)
  have o2: "fst (InitFromApp_AppHost fillingUp generated projectDir disk0) =
     ReturnErr (Wrap ''copying contents from temp staging directory''
                  (Error ''no space left on device''))"
    by (simp add: merge_defs fillingUp_def calm_def)
  have o3: "fst (InitFromApp_Infra panicking projectDir disk0) = Panicked"
    by (simp add: merge_defs panicking_def calm_def)
  from staging_removed [OF calm_simps(1,2) p(1), of generated projectDir disk0]
    staging_removed [OF calm_simps(1,2) p(2), of generated projectDir disk0]
    staging_removed [OF calm_simps(5,6) p(1), of generated projectDir disk0]
    staging_removed [OF calm_simps(3,4) p(1), of generated projectDir disk0]
    o1 o2 o3
  show ?thesis by blast
qed

subsection \<open>Writing to the destination\<close>

lemma beside_staging:
  assumes "staging \<parallel> dest" and "prefix dest q"
  shows "\<not> prefix staging q" and "\<not> prefix q (staging @ r)"
proof -
  show a: "\<not> prefix staging q"
  proof
    assume "prefix staging q"
    with assms(2) have "prefix staging dest \<or> prefix dest staging"
      using prefix_same_cases by blast
    with assms(1) show False by (auto simp: parallel_def)
  qed
  show "\<not> prefix q (staging @ r)"
  proof
    assume "prefix q (staging @ r)"
    moreover have "prefix staging (staging @ r)" by simp
    ultimately have "prefix q staging \<or> prefix staging q"
      using prefix_same_cases by blast
    with a have "prefix q staging" by simp
    with assms(2) have "prefix dest staging" by (rule prefix_order.trans)
    with assms(1) show False by (auto simp: parallel_def)
  qed
qed

lemma withDirs_elsewhere: "\<not> prefix q p \<Longrightarrow> withDirs d p perm q = d q"
  by (simp add: withDirs_def onWay_def)

lemma withDirs_keeps: "d q = Some nd \<Longrightarrow> withDirs d p perm q = Some nd"
  by (simp add: withDirs_def)

lemma stageFile_beside:
  assumes "staging \<parallel> dest" and "prefix dest q"
  shows "snd (stageFile w staging entry d) q = d q"
proof -
  from beside_staging [OF assms] have "\<not> prefix q (staging @ butlast (fst entry))"
    and "q \<noteq> staging @ fst entry"
    by auto
  then show ?thesis
    by (auto simp: stageFile_def writeFile_def Let_def withDirs_elsewhere split: option.splits)
qed

lemma stageFiles_beside:
  assumes "staging \<parallel> dest" and "prefix dest q"
  shows "snd (stageFiles w staging files d) q = d q"
proof (induction files arbitrary: d)
  case Nil
  show ?case by simp
next
  case (Cons entry rest)
  show ?case
    using stageFile_beside [OF assms, of w entry d] Cons.IH
    by (cases "stageFile w staging entry d") (auto split: option.splits)
qed

lemma renderInto_beside:
  assumes "staging \<parallel> dest" and "prefix dest q"
  shows "renderInto w staging files d q = d q"
proof (induction files arbitrary: d)
  case Nil
  show ?case by simp
next
  case (Cons entry rest)
  from beside_staging [OF assms] have "\<not> prefix q (staging @ butlast (fst entry))"
    and "q \<noteq> staging @ fst entry"
    by auto
  then show ?case
    by (simp add: Cons.IH writeFile_def withDirs_elsewhere)
qed

lemma stageFile_keeps:
  "d x = Some nd \<Longrightarrow> x \<noteq> staging @ fst entry \<Longrightarrow> snd (stageFile w staging entry d) x = Some nd"
  by (auto simp: stageFile_def writeFile_def Let_def withDirs_keeps split: option.splits)

lemma stageFiles_keeps:
  "d x = Some nd \<Longrightarrow> x \<notin> (\<lambda>e. staging @ fst e) ` set files \<Longrightarrow>
   snd (stageFiles w staging files d) x = Some nd"
proof (induction files arbitrary: d)
  case Nil
  then show ?case by simp
next
  case (Cons entry rest)
  from Cons.prems have "snd (stageFile w staging entry d) x = Some nd"
    by (intro stageFile_keeps) auto
  with Cons.IH [of "snd (stageFile w staging entry d)"] Cons.prems(2) show ?case
    by (cases "stageFile w staging entry d") (auto split: option.splits)
qed

text \<open>The mode of the file that a write to \<open>x\<close> leaves there.\<close>

definition modeAfterWrite :: "surroundings \<Rightarrow> disk \<Rightarrow> fpath \<Rightarrow> FileMode \<Rightarrow> FileMode" where
  "modeAfterWrite w d x perm =
     (case d x of Some (FileNode _ mode) \<Rightarrow> mode | _ \<Rightarrow> created w perm)"

lemma withDirs_modeAfterWrite:
  "modeAfterWrite w (withDirs d p dperm) x perm = modeAfterWrite w d x perm"
  by (auto simp: modeAfterWrite_def withDirs_def split: option.splits node.splits)

lemma writeFile_modeAfterWrite:
  "x \<noteq> name \<Longrightarrow>
   modeAfterWrite w (writeFile w name data fperm d) x perm = modeAfterWrite w d x perm"
  by (simp add: modeAfterWrite_def writeFile_def)

lemma stageFile_modeAfterWrite:
  "x \<noteq> staging @ fst entry \<Longrightarrow>
   modeAfterWrite w (snd (stageFile w staging entry d)) x perm = modeAfterWrite w d x perm"
  by (simp add: stageFile_def Let_def withDirs_modeAfterWrite writeFile_modeAfterWrite
      split: option.splits)

lemma stageFile_written:
  "fst (stageFile w staging entry d) = None \<Longrightarrow>
   snd (stageFile w staging entry d) (staging @ fst entry) =
     Some (FileNode (Contents (snd entry))
             (modeAfterWrite w d (staging @ fst entry) (Mode (snd entry))))"
  using withDirs_modeAfterWrite
    [of w d "staging @ butlast (fst entry)" "created w (PermissionDirectory w)"
       "staging @ fst entry" "Mode (snd entry)"]
  by (auto simp: stageFile_def writeFile_def Let_def modeAfterWrite_def split: option.splits)

lemma stageFile_keeps_file:
  "d x = Some (FileNode data mode) \<Longrightarrow> x \<noteq> staging @ fst entry \<Longrightarrow>
   snd (stageFile w staging entry d) x = Some (FileNode data mode)"
  by (rule stageFile_keeps)

lemma stageFiles_written:
  assumes "fst (stageFiles w staging files d) = None"
    and "distinct (map fst files)"
    and "entry \<in> set files"
  shows "snd (stageFiles w staging files d) (staging @ fst entry) =
           Some (FileNode (Contents (snd entry))
                   (modeAfterWrite w d (staging @ fst entry) (Mode (snd entry))))"
  using assms
proof (induction files arbitrary: d)
  case Nil
  then show ?case by simp
next
  case (Cons e rest)
  obtain r d1 where s: "stageFile w staging e d = (r, d1)" by (cases "stageFile w staging e d")
  with Cons.prems(1) have r: "r = None" and rest: "fst (stageFiles w staging rest d1) = None"
    by (auto split: option.splits)
  show ?case
  proof (cases "entry = e")
    case True
    from stageFile_written [of w staging e d] s r
    have "d1 (staging @ fst e) =
            Some (FileNode (Contents (snd e)) (modeAfterWrite w d (staging @ fst e) (Mode (snd e))))"
      by simp
    moreover from Cons.prems(2) have "staging @ fst e \<notin> (\<lambda>x. staging @ fst x) ` set rest"
      by auto
    ultimately have "snd (stageFiles w staging rest d1) (staging @ fst e) =
            Some (FileNode (Contents (snd e)) (modeAfterWrite w d (staging @ fst e) (Mode (snd e))))"
      by (rule stageFiles_keeps)
    with s r True show ?thesis by simp
  next
    case False
    with Cons.prems have in_rest: "entry \<in> set rest" and d: "distinct (map fst rest)"
      by auto
    have ne: "fst entry \<noteq> fst e"
    proof
      assume "fst entry = fst e"
      with in_rest have "fst e \<in> fst ` set rest" by (metis imageI)
      with Cons.prems(2) show False by simp
    qed
    from ne have "staging @ fst entry \<noteq> staging @ fst e" by simp
    from stageFile_modeAfterWrite [OF this, of w d "Mode (snd entry)"] s
    have "modeAfterWrite w d1 (staging @ fst entry) (Mode (snd entry)) =
            modeAfterWrite w d (staging @ fst entry) (Mode (snd entry))"
      by simp
    with Cons.IH [OF rest d in_rest] s r show ?thesis by simp
  qed
qed

lemma promptAndCopy_change:
  assumes "promptAndCopy w staging dest d1 = (r, d2)" and "d2 q \<noteq> d1 q"
  shows "\<exists>skip nd. promptForDuplicates w d1 staging dest = Return skip \<and> prefix dest q \<and>
           \<not> skipped skip staging (drop (length dest) q) \<and>
           d1 (staging @ drop (length dest) q) = Some nd \<and> d2 q = Some nd"
proof (cases "promptForDuplicates w d1 staging dest")
  case (Return skip)
  with assms(1) have "d2 = copyTree staging dest skip (\<lambda>_. True) d1 \<or>
                      (\<exists>copied. d2 = copyTree staging dest skip copied d1)"
    by (auto simp: promptAndCopy_def copyStaging_def split: option.splits)
  then obtain copied where "d2 = copyTree staging dest skip copied d1" by blast
  with assms(2) Return show ?thesis
    by (auto simp: copyTree_def split: if_splits option.splits)
next
  case (ReturnErr e)
  with assms show ?thesis by (simp add: promptAndCopy_def)
next
  case Panicked
  with assms show ?thesis by (simp add: promptAndCopy_def)
qed

lemma stageInfra_beside:
  assumes "staging \<parallel> infra" and "strict_prefix infra q"
  shows "snd (stageInfra w staging infra d) q = d q"
proof -
  from assms(2) have p: "prefix infra q" and n: "\<not> prefix q infra"
    by (auto simp: strict_prefix_def)
  show ?thesis
    by (simp add: stageInfra_def Let_def renderInto_beside [OF assms(1) p] withDirs_elsewhere [OF n]
        split: option.splits)
qed

lemma mergeArtifacts_change:
  assumes "mergeArtifacts w files staging dest d = (r, d2)"
    and "d2 q \<noteq> snd (stageFiles w staging files d) q"
  shows "fst (stageFiles w staging files d) = None \<and>
         (\<exists>skip nd. promptForDuplicates w (snd (stageFiles w staging files d)) staging dest = Return skip \<and>
            prefix dest q \<and> \<not> skipped skip staging (drop (length dest) q) \<and>
            snd (stageFiles w staging files d) (staging @ drop (length dest) q) = Some nd \<and>
            d2 q = Some nd)"
proof (cases "stageFiles w staging files d")
  case (Pair e d1)
  show ?thesis
  proof (cases e)
    case (Some err)
    with Pair assms show ?thesis by (simp add: mergeArtifacts_def)
  next
    case None
    with Pair assms have pc: "promptAndCopy w staging dest d1 = (r, d2)" and ne: "d2 q \<noteq> d1 q"
      by (simp_all add: mergeArtifacts_def)
    from promptAndCopy_change [OF pc ne] Pair None show ?thesis by simp
  qed
qed

lemma mergeInfra_change:
  assumes "mergeInfra w staging infra d = (r, d2)"
    and "d2 q \<noteq> snd (stageInfra w staging infra d) q"
  shows "fst (stageInfra w staging infra d) = None \<and>
         (\<exists>skip nd. promptForDuplicates w (snd (stageInfra w staging infra d)) staging infra = Return skip \<and>
            prefix infra q \<and> \<not> skipped skip staging (drop (length infra) q) \<and>
            snd (stageInfra w staging infra d) (staging @ drop (length infra) q) = Some nd \<and>
            d2 q = Some nd)"
proof (cases "stageInfra w staging infra d")
  case (Pair e d1)
  show ?thesis
  proof (cases e)
    case (Some err)
    with Pair assms show ?thesis by (simp add: mergeInfra_def)
  next
    case None
    with Pair assms have pc: "promptAndCopy w staging infra d1 = (r, d2)" and ne: "d2 q \<noteq> d1 q"
      by (simp_all add: mergeInfra_def)
    from promptAndCopy_change [OF pc ne] Pair None show ?thesis by simp
  qed
qed

lemma InitFromApp_Infra_destination:
  assumes "os_MkdirTemp w = Inr staging"
    and "staging \<parallel> projectDirectory @ [''infra'']"
    and "prefix (projectDirectory @ [''infra'']) q"
  shows "snd (InitFromApp_Infra w projectDirectory d) q =
         snd (mergeInfra w staging (projectDirectory @ [''infra''])
                (d(staging \<mapsto> DirNode (created w 448)))) q"
proof -
  from beside_staging(1) [OF assms(2,3)] have ns: "\<not> prefix staging q" .
  have nn: "q \<noteq> projectDirectory @ [''next-steps.md'']"
  proof
    assume "q = projectDirectory @ [''next-steps.md'']"
    with assms(3) show False by simp
  qed
  show ?thesis
    by (auto simp: InitFromApp_Infra_def assms(1) RemoveAll_elsewhere [OF ns] nn writeFile_def
        split: prod.splits outcome.splits sum.splits)
qed

text \<open>
  Claim C9. Let the staging directory lie beside the destination, neither inside the
  other. On the app host path, with the project directory the destination: staging the
  generated files changes nothing at or below the destination; when the staging ends
  without error, every generated file is in the staging directory under its relative
  path, with its contents and the mode that \<open>os.WriteFile\<close> leaves; and a path at or below the destination that the merge changes holds, after it,
  the node staged under the same relative path, that path is not among those the user
  keeps, and the staging had ended without error before \<open>promptForDuplicates\<close> answered.
  The removal of the staging directory changes nothing at or below the destination. On
  the scaffold path, with \<open>infra\<close> the destination, the same holds of the whole
  operation: nothing below \<open>infra\<close> changes before the prompt, and what differs
  afterwards was copied from the staging directory and is not among the paths kept.
\<close>

theorem destination_changed_only_by_copy:
  assumes "staging \<parallel> dest"
    and "os_MkdirTemp w = Inr staging'"
    and "staging' \<parallel> projectDirectory @ [''infra'']"
  shows
    "(prefix dest q \<longrightarrow> snd (stageFiles w staging files d) q = d q) \<and>
     (fst (stageFiles w staging files d) = None \<and> distinct (map fst files) \<and> entry \<in> set files \<longrightarrow>
        snd (stageFiles w staging files d) (staging @ fst entry) =
          Some (FileNode (Contents (snd entry))
                  (modeAfterWrite w d (staging @ fst entry) (Mode (snd entry))))) \<and>
     (prefix dest q \<and> snd (mergeArtifacts w files staging dest d) q \<noteq> d q \<longrightarrow>
        fst (stageFiles w staging files d) = None \<and>
        (\<exists>skip nd.
           promptForDuplicates w (snd (stageFiles w staging files d)) staging dest = Return skip \<and>
           \<not> skipped skip staging (drop (length dest) q) \<and>
           snd (stageFiles w staging files d) (staging @ drop (length dest) q) = Some nd \<and>
           snd (mergeArtifacts w files staging dest d) q = Some nd)) \<and>
     (prefix dest q \<longrightarrow> RemoveAll w staging d q = d q) \<and>
     (strict_prefix (projectDirectory @ [''infra'']) q \<longrightarrow>
        snd (stageInfra w staging' (projectDirectory @ [''infra'']) (d(staging' \<mapsto> DirNode (created w 448)))) q =
          d q) \<and>
     (prefix (projectDirectory @ [''infra'']) q \<and>
      snd (InitFromApp_Infra w projectDirectory d) q \<noteq>
        snd (stageInfra w staging' (projectDirectory @ [''infra'']) (d(staging' \<mapsto> DirNode (created w 448)))) q \<longrightarrow>
        fst (stageInfra w staging' (projectDirectory @ [''infra'']) (d(staging' \<mapsto> DirNode (created w 448)))) = None \<and>
        (\<exists>skip nd.
           promptForDuplicates w
               (snd (stageInfra w staging' (projectDirectory @ [''infra''])
                       (d(staging' \<mapsto> DirNode (created w 448)))))
               staging' (projectDirectory @ [''infra'']) = Return skip \<and>
           \<not> skipped skip staging' (drop (length (projectDirectory @ [''infra''])) q) \<and>
           snd (stageInfra w staging' (projectDirectory @ [''infra'']) (d(staging' \<mapsto> DirNode (created w 448))))
               (staging' @ drop (length (projectDirectory @ [''infra''])) q) = Some nd \<and>
           snd (InitFromApp_Infra w projectDirectory d) q = Some nd))"
proof (intro conjI impI)
  assume "prefix dest q"
  then show "snd (stageFiles w staging files d) q = d q"
    by (rule stageFiles_beside [OF assms(1)])
next
  assume "fst (stageFiles w staging files d) = None \<and> distinct (map fst files) \<and> entry \<in> set files"
  then show "snd (stageFiles w staging files d) (staging @ fst entry) =
          Some (FileNode (Contents (snd entry))
                  (modeAfterWrite w d (staging @ fst entry) (Mode (snd entry))))"
    by (intro stageFiles_written) simp_all
next
  assume a: "prefix dest q \<and> snd (mergeArtifacts w files staging dest d) q \<noteq> d q"
  then have "snd (mergeArtifacts w files staging dest d) q \<noteq> snd (stageFiles w staging files d) q"
    by (simp add: stageFiles_beside [OF assms(1)])
  from mergeArtifacts_change [OF prod.collapse [symmetric] this]
  show "fst (stageFiles w staging files d) = None"
    and "\<exists>skip nd.
           promptForDuplicates w (snd (stageFiles w staging files d)) staging dest = Return skip \<and>
           \<not> skipped skip staging (drop (length dest) q) \<and>
           snd (stageFiles w staging files d) (staging @ drop (length dest) q) = Some nd \<and>
           snd (mergeArtifacts w files staging dest d) q = Some nd"
    by blast+
next
  assume "prefix dest q"
  from beside_staging(1) [OF assms(1) this] show "RemoveAll w staging d q = d q"
    by (rule RemoveAll_elsewhere)
next
  let ?infra = "projectDirectory @ [''infra'']"
  assume sp: "strict_prefix ?infra q"
  then have "prefix ?infra q" by (simp add: strict_prefix_def)
  from beside_staging(1) [OF assms(3) this] have "q \<noteq> staging'" by auto
  then show "snd (stageInfra w staging' ?infra (d(staging' \<mapsto> DirNode (created w 448)))) q = d q"
    by (simp add: stageInfra_beside [OF assms(3) sp])
next
  let ?infra = "projectDirectory @ [''infra'']"
  let ?d0 = "d(staging' \<mapsto> DirNode (created w 448))"
  assume a: "prefix ?infra q \<and>
      snd (InitFromApp_Infra w projectDirectory d) q \<noteq> snd (stageInfra w staging' ?infra ?d0) q"
  then have eq: "snd (InitFromApp_Infra w projectDirectory d) q = snd (mergeInfra w staging' ?infra ?d0) q"
    by (simp add: InitFromApp_Infra_destination [OF assms(2,3)])
  with a have "snd (mergeInfra w staging' ?infra ?d0) q \<noteq> snd (stageInfra w staging' ?infra ?d0) q"
    by simp
  from mergeInfra_change [OF prod.collapse [symmetric] this, folded eq]
  show "fst (stageInfra w staging' ?infra ?d0) = None"
    and "\<exists>skip nd.
           promptForDuplicates w (snd (stageInfra w staging' ?infra ?d0)) staging' ?infra = Return skip \<and>
           \<not> skipped skip staging' (drop (length ?infra) q) \<and>
           snd (stageInfra w staging' ?infra ?d0) (staging' @ drop (length ?infra) q) = Some nd \<and>
           snd (InitFromApp_Infra w projectDirectory d) q = Some nd"
    by blast+
qed

definition disk1 :: disk where
  "disk1 = disk0(tmpStaging \<mapsto> DirNode 448)"

lemma beside_sample:
  "tmpStaging \<parallel> projectDir" "tmpStaging \<parallel> projectDir @ [''infra'']"
  by (simp_all add: parallel_def tmpStaging_def projectDir_def)

lemma keeping_prompt:
  "promptForDuplicates keeping d staging dest = Return (Some [staging @ [''azure.yaml'']])"
  by (simp add: keeping_def calm_def)

lemma stage_sample:
  "fst (stageFiles keeping tmpStaging generated disk1) = None"
  by (simp add: stageFile_def generated_def keeping_def calm_def)

text \<open>
  The user keeps \<open>azure.yaml\<close>: it is staged, and the one in the project stays as it was;
  \<open>infra/main.bicep\<close> is new and is copied.
\<close>

theorem destination_changed_only_by_copy_witness:
  "snd (stageFiles keeping tmpStaging generated disk1) (projectDir @ [''azure.yaml'']) =
     Some (FileNode ''name: mine'' 420) \<and>
   snd (stageFiles keeping tmpStaging generated disk1) (tmpStaging @ [''azure.yaml'']) =
     Some (FileNode ''name: app'' 420) \<and>
   snd (mergeArtifacts keeping generated tmpStaging projectDir disk1) (projectDir @ [''azure.yaml'']) =
     Some (FileNode ''name: mine'' 420) \<and>
   snd (mergeArtifacts keeping generated tmpStaging projectDir disk1)
       (projectDir @ [''infra'', ''main.bicep'']) =
     Some (FileNode ''targetScope'' 420) \<and>
   snd (stageInfra keeping tmpStaging (projectDir @ [''infra'']) disk1)
       (projectDir @ [''infra'', ''main.bicep'']) = None \<and>
   snd (InitFromApp_Infra keeping projectDir disk0) (projectDir @ [''infra'', ''main.bicep'']) =
     Some (FileNode ''targetScope'' 420)"
proof -
  let ?kept = "projectDir @ [''azure.yaml'']"
  let ?new = "projectDir @ [''infra'', ''main.bicep'']"
  have mk: "os_MkdirTemp keeping = Inr tmpStaging" by (simp add: calm_simps)
  note T0 = destination_changed_only_by_copy [OF beside_sample(1) mk beside_sample(2),
      where files = generated]
  note T = T0 [where d = disk1]
  have old: "disk1 ?kept = Some (FileNode ''name: mine'' 420)" "disk1 ?new = None"
    "disk0 ?new = None"
    by (simp_all add: disk1_def disk0_def projectDir_def tmpStaging_def)
  have p1: "snd (stageFiles keeping tmpStaging generated disk1) ?kept =
              Some (FileNode ''name: mine'' 420)"
    using T [where q = ?kept] old by simp
  have "([''azure.yaml''], \<lparr>Contents = ''name: app'', Mode = 420\<rparr>) \<in> set generated"
    "distinct (map fst generated)"
    by (simp_all add: generated_def)
  moreover have "modeAfterWrite keeping disk1 (tmpStaging @ [''azure.yaml'']) 420 = 420"
    by (simp add: modeAfterWrite_def created_def keeping_def calm_def disk1_def disk0_def
        tmpStaging_def)
  ultimately
  have p2: "snd (stageFiles keeping tmpStaging generated disk1) (tmpStaging @ [''azure.yaml'']) =
     Some (FileNode ''name: app'' 420)"
    using T [where entry = "([''azure.yaml''], \<lparr>Contents = ''name: app'', Mode = 420\<rparr>)"]
      stage_sample
    by simp
  have sk: "skipped (Some [tmpStaging @ [''azure.yaml'']]) tmpStaging (drop (length projectDir) ?kept)"
    by (simp add: skipped_def)
  have p3: "snd (mergeArtifacts keeping generated tmpStaging projectDir disk1) ?kept =
     Some (FileNode ''name: mine'' 420)"
  proof (rule ccontr)
    assume "snd (mergeArtifacts keeping generated tmpStaging projectDir disk1) ?kept \<noteq>
              Some (FileNode ''name: mine'' 420)"
    with T [where q = ?kept] old
    have "\<exists>skip. promptForDuplicates keeping (snd (stageFiles keeping tmpStaging generated disk1))
                   tmpStaging projectDir = Return skip \<and>
                 \<not> skipped skip tmpStaging (drop (length projectDir) ?kept)"
      by auto
    with sk show False by (simp add: keeping_prompt)
  qed
  have p4: "snd (mergeArtifacts keeping generated tmpStaging projectDir disk1) ?new =
     Some (FileNode ''targetScope'' 420)"
    by (simp add: merge_defs keeping_def calm_def disk1_def)
  have p5: "snd (stageInfra keeping tmpStaging (projectDir @ [''infra'']) disk1) ?new = None"
    using T0 [where q = ?new and d = disk0] old
    by (simp add: disk1_def strict_prefix_def created_def keeping_def calm_def)
  have p6: "snd (InitFromApp_Infra keeping projectDir disk0) ?new =
     Some (FileNode ''targetScope'' 420)"
    by (simp add: merge_defs keeping_def calm_def)
  from p1 p2 p3 p4 p5 p6 show ?thesis by blast
qed

end
